theory Spec2Isabelle
  imports Main
begin

section \<open>Strings and containers of the runtime\<close>

text \<open>
  A JavaScript string is a sequence of UTF-16 code units. A code unit is modelled as a
  natural number, a string as the list of its code units, so that \<open>length\<close> is the
  \<open>.length\<close> of the source. \<open>U\<close> turns an ASCII literal into such a string.
\<close>

type_synonym jschar = nat
type_synonym jsstring = "nat list"

definition U :: "string \<Rightarrow> jsstring" where
  "U s = map of_char s"

text \<open>
  A \<open>Set\<close> keeps its elements in insertion order and holds each of them once: it is
  modelled as the list of its elements in that order. \<open>Set_add\<close> is \<open>Set.prototype.add\<close>,
  \<open>Set_new\<close> is \<open>new Set(iterable)\<close>, and the list itself is what \<open>Array.from\<close> and the
  spread operator read back.
\<close>

definition Set_add :: "'a list \<Rightarrow> 'a \<Rightarrow> 'a list" where
  "Set_add xs x = (if x \<in> set xs then xs else xs @ [x])"

definition Set_new :: "'a list \<Rightarrow> 'a list" where
  "Set_new xs = foldl Set_add [] xs"

text \<open>
  A \<open>Map\<close> keeps its keys in the order of their first insertion; setting a key that is
  present replaces its value in place. It is modelled as an association list.
\<close>

definition Map_set :: "('k \<times> 'v) list \<Rightarrow> 'k \<times> 'v \<Rightarrow> ('k \<times> 'v) list" where
  "Map_set m kv =
     (if fst kv \<in> fst ` set m
      then map (\<lambda>e. if fst e = fst kv then kv else e) m
      else m @ [kv])"

definition Map_new :: "('k \<times> 'v) list \<Rightarrow> ('k \<times> 'v) list" where
  "Map_new entries = foldl Map_set [] entries"

text \<open>White space and line terminators of ECMAScript: what \<open>\s\<close> matches and \<open>trim\<close> strips.\<close>

definition is_space :: "jschar \<Rightarrow> bool" where
  "is_space c \<longleftrightarrow>
     (9 \<le> c \<and> c \<le> 13) \<or> c = 32 \<or> c = 160 \<or> c = 5760 \<or> (8192 \<le> c \<and> c \<le> 8202)
     \<or> c = 8232 \<or> c = 8233 \<or> c = 8239 \<or> c = 8287 \<or> c = 12288 \<or> c = 65279"

definition trimStart :: "jsstring \<Rightarrow> jsstring" where
  "trimStart s = dropWhile is_space s"

definition trim :: "jsstring \<Rightarrow> jsstring" where
  "trim s = rev (dropWhile is_space (rev (dropWhile is_space s)))"

fun join :: "jsstring \<Rightarrow> jsstring list \<Rightarrow> jsstring" where
  "join sep [] = []"
| "join sep [x] = x"
| "join sep (x # y # ys) = x @ sep @ join sep (y # ys)"

section \<open>ContextManager\<close>

subsection \<open>Data\<close>

datatype tier = Global | Extension | Project

record MemoryFileDetail =
  path :: jsstring
  tier :: tier
  chars :: nat

text \<open>\<open>GeminiFileContent\<close>: the content is \<open>null\<close> (\<open>None\<close>) when the file could not be read.\<close>

record GeminiFileContent =
  filePath :: jsstring
  content :: "jsstring option"

text \<open>One value per tier: the discovered paths, and the concatenated memory of each tier.\<close>

record 'a tiers =
  global :: 'a
  extension :: 'a
  project :: 'a

datatype error = Thrown jsstring

text \<open>What the manager reads of its \<open>Config\<close>. \<open>getMcpInstructions\<close> is \<open>None\<close> when there is
  no MCP client manager (the optional call yields \<open>undefined\<close>).\<close>

record Config =
  isTrustedFolder :: bool
  getDebugMode :: bool
  getDirectories :: "jsstring list"
  getWorkingDir :: jsstring
  getMcpInstructions :: "jsstring option"

text \<open>
  The functions imported from \<open>utils/memoryDiscovery\<close> are not part of the sources: they
  are parameters. A discovery function may throw or reject (\<open>Inl\<close>). \<open>upwardMemoryFiles\<close>
  and \<open>readMemoryFile\<close> are the two things the just-in-time loader does to the file system:
  the upward walk that lists the memory files between an accessed path and its trusted
  root, and the read of one file. \<open>globalSettlesFirst\<close> is the order in which the promises
  of the global and of the project discovery settle, which the file system decides.
\<close>

record memoryDiscovery =
  getGlobalMemoryPaths :: "bool \<Rightarrow> error + jsstring list"
  getExtensionMemoryPaths :: "error + jsstring list"
  getEnvironmentMemoryPaths :: "jsstring list \<Rightarrow> bool \<Rightarrow> error + jsstring list"
  readGeminiMdFiles :: "jsstring list \<Rightarrow> bool \<Rightarrow> GeminiFileContent list"
  categorizeAndConcatenate ::
    "jsstring list tiers \<Rightarrow> (jsstring \<times> GeminiFileContent) list \<Rightarrow> jsstring
      \<Rightarrow> jsstring option tiers"
  concatenateInstructions :: "(jsstring \<times> jsstring) list \<Rightarrow> jsstring \<Rightarrow> jsstring"
  upwardMemoryFiles :: "jsstring \<Rightarrow> jsstring list \<Rightarrow> jsstring list"
  readMemoryFile :: "jsstring \<Rightarrow> jsstring option"
  globalSettlesFirst :: bool

text \<open>
  The calls that leave the manager, in the order they are made: the calls of the
  discovery and loading functions, the console lines and the \<open>MemoryChanged\<close> event. The
  text of a console line is not modelled, only the files and the total it reports.
\<close>

datatype effect =
    CallGetGlobalMemoryPaths
  | CallGetExtensionMemoryPaths
  | CallGetEnvironmentMemoryPaths "jsstring list"
  | CallReadGeminiMdFiles "jsstring list"
  | CallLoadJitSubdirectoryMemory jsstring "jsstring list"
  | ConsoleLoaded "jsstring list" nat
  | ConsoleNoneLoaded
  | EmitMemoryChanged nat

text \<open>The fields of the class, and the log of the effects so far.\<close>

record ContextManager =
  loadedPaths :: "jsstring list"
  globalMemory :: jsstring
  extensionMemory :: jsstring
  projectMemory :: jsstring
  memoryFileDetails :: "MemoryFileDetail list"
  effects :: "effect list"

definition emit :: "effect \<Rightarrow> ContextManager \<Rightarrow> ContextManager" where
  "emit e s = s\<lparr>effects := effects s @ [e]\<rparr>"

subsection \<open>Operations\<close>

definition markAsLoaded :: "jsstring list \<Rightarrow> ContextManager \<Rightarrow> ContextManager" where
  "markAsLoaded paths s = s\<lparr>loadedPaths := foldl Set_add (loadedPaths s) paths\<rparr>"

text \<open>
  \<open>discoverMemoryPaths\<close>: the array handed to \<open>Promise.all\<close> is built left to right. The
  global discovery is started, the extension discovery runs at once (an exception it
  throws leaves the function before the project discovery is started), the project
  discovery is started for a trusted folder only; then all three are awaited, and one
  rejection rejects the whole, with the error of the promise that rejects first.
\<close>

definition discoverMemoryPaths ::
  "memoryDiscovery \<Rightarrow> Config \<Rightarrow> ContextManager
    \<Rightarrow> (error + jsstring list tiers) \<times> ContextManager" where
  "discoverMemoryPaths md cfg s =
     (let s1 = emit CallGetGlobalMemoryPaths s;
          g = getGlobalMemoryPaths md (getDebugMode cfg);
          s2 = emit CallGetExtensionMemoryPaths s1
      in case getExtensionMemoryPaths md of
           Inl e \<Rightarrow> (Inl e, s2)
         | Inr x \<Rightarrow>
             (let (p, s3) =
                    (if isTrustedFolder cfg
                     then (getEnvironmentMemoryPaths md (getDirectories cfg) (getDebugMode cfg),
                           emit (CallGetEnvironmentMemoryPaths (getDirectories cfg)) s2)
                     else (Inr [], s2))
              in case g of
                   Inl e \<Rightarrow>
                     (case p of
                        Inl e' \<Rightarrow> (Inl (if globalSettlesFirst md then e else e'), s3)
                      | Inr pr \<Rightarrow> (Inl e, s3))
                 | Inr gl \<Rightarrow>
                     (case p of
                        Inl e' \<Rightarrow> (Inl e', s3)
                      | Inr pr \<Rightarrow> (Inr \<lparr>global = gl, extension = x, project = pr\<rparr>, s3))))"

definition allPaths :: "jsstring list tiers \<Rightarrow> jsstring list" where
  "allPaths paths = Set_new (global paths @ extension paths @ project paths)"

definition content_length :: "GeminiFileContent \<Rightarrow> nat" where
  "content_length c = (case content c of None \<Rightarrow> 0 | Some t \<Rightarrow> length t)"

definition loadMemoryContents ::
  "memoryDiscovery \<Rightarrow> Config \<Rightarrow> jsstring list tiers \<Rightarrow> ContextManager
    \<Rightarrow> (jsstring \<times> GeminiFileContent) list \<times> ContextManager" where
  "loadMemoryContents md cfg paths s =
     (let allContents = readGeminiMdFiles md (allPaths paths) (getDebugMode cfg);
          s1 = emit (CallReadGeminiMdFiles (allPaths paths)) s;
          loadedFiles = filter (\<lambda>c. content c \<noteq> None) allContents;
          filePaths = map filePath loadedFiles;
          s2 = (if length filePaths > 0
                then emit (ConsoleLoaded filePaths (sum_list (map content_length loadedFiles))) s1
                else emit ConsoleNoneLoaded s1);
          s3 = markAsLoaded filePaths s2
      in (Map_new (map (\<lambda>c. (filePath c, c)) allContents), s3))"

definition buildMemoryFileDetails ::
  "jsstring list tiers \<Rightarrow> (jsstring \<times> GeminiFileContent) list \<Rightarrow> ContextManager
    \<Rightarrow> ContextManager" where
  "buildMemoryFileDetails paths contentsMap s =
     (let globalSet = Set_new (global paths);
          extensionSet = Set_new (extension paths)
      in s\<lparr>memoryFileDetails :=
            foldl (\<lambda>details (fp, c).
                     case content c of
                       None \<Rightarrow> details
                     | Some t \<Rightarrow>
                         details @
                           [\<lparr>path = fp,
                             tier = (if fp \<in> set globalSet then Global
                                     else if fp \<in> set extensionSet then Extension
                                     else Project),
                             chars = length t\<rparr>])
                  [] contentsMap\<rparr>)"

text \<open>\<open>x || ''\<close> on a value that is a string or \<open>undefined\<close>.\<close>

definition or_empty :: "jsstring option \<Rightarrow> jsstring" where
  "or_empty x = (case x of None \<Rightarrow> [] | Some t \<Rightarrow> t)"

text \<open>\<open>Boolean(x)\<close> on such a value: \<open>undefined\<close> and the empty string are falsy.\<close>

definition truthy :: "jsstring option \<Rightarrow> bool" where
  "truthy x = (case x of None \<Rightarrow> False | Some t \<Rightarrow> t \<noteq> [])"

definition categorizeMemoryContents ::
  "memoryDiscovery \<Rightarrow> Config \<Rightarrow> jsstring list tiers \<Rightarrow> (jsstring \<times> GeminiFileContent) list
    \<Rightarrow> ContextManager \<Rightarrow> ContextManager" where
  "categorizeMemoryContents md cfg paths contentsMap s =
     (let hierarchicalMemory = categorizeAndConcatenate md paths contentsMap (getWorkingDir cfg);
          mcpInstructions = or_empty (getMcpInstructions cfg);
          projectMemoryWithMcp =
            join (U ''\<newline>\<newline>'')
              (map or_empty
                (filter truthy [project hierarchicalMemory, Some (trimStart mcpInstructions)]))
      in s\<lparr>globalMemory := or_empty (global hierarchicalMemory),
            extensionMemory := or_empty (extension hierarchicalMemory),
            projectMemory := (if isTrustedFolder cfg then projectMemoryWithMcp else [])\<rparr>)"

definition emitMemoryChanged :: "ContextManager \<Rightarrow> ContextManager" where
  "emitMemoryChanged s = emit (EmitMemoryChanged (length (loadedPaths s))) s"

definition refresh ::
  "memoryDiscovery \<Rightarrow> Config \<Rightarrow> ContextManager \<Rightarrow> (error + unit) \<times> ContextManager" where
  "refresh md cfg s =
     (let s0 = s\<lparr>loadedPaths := [], memoryFileDetails := []\<rparr>
      in case discoverMemoryPaths md cfg s0 of
           (Inl e, s1) \<Rightarrow> (Inl e, s1)
         | (Inr paths, s1) \<Rightarrow>
             (let (contentsMap, s2) = loadMemoryContents md cfg paths s1;
                  s3 = buildMemoryFileDetails paths contentsMap s2;
                  s4 = categorizeMemoryContents md cfg paths contentsMap s3
              in (Inr (), emitMemoryChanged s4)))"

text \<open>
  Modelled from the spec: \<open>loadJitSubdirectoryMemory\<close> of \<open>utils/memoryDiscovery\<close>, which is
  not part of the sources. The spec (4.2) walks upward from the directory of the accessed
  path, bounded by the trusted roots and a hop limit; at each directory a memory file
  whose path is already in the loaded set is skipped, any other is read, and on success
  it joins the result of the call. The walk is \<open>upwardMemoryFiles\<close>, the read is
  \<open>readMemoryFile\<close>.
\<close>

definition loadJitSubdirectoryMemory ::
  "memoryDiscovery \<Rightarrow> jsstring \<Rightarrow> jsstring list \<Rightarrow> jsstring list \<Rightarrow> (jsstring \<times> jsstring) list"
  where
  "loadJitSubdirectoryMemory md accessedPath trustedRoots alreadyLoaded =
     List.map_filter
       (\<lambda>q. if q \<in> set alreadyLoaded then None
            else (case readMemoryFile md q of None \<Rightarrow> None | Some t \<Rightarrow> Some (q, t)))
       (upwardMemoryFiles md accessedPath trustedRoots)"

definition discoverContext ::
  "memoryDiscovery \<Rightarrow> Config \<Rightarrow> jsstring \<Rightarrow> jsstring list \<Rightarrow> ContextManager
    \<Rightarrow> jsstring \<times> ContextManager" where
  "discoverContext md cfg accessedPath trustedRoots s =
     (if \<not> isTrustedFolder cfg then ([], s)
      else
        (let files = loadJitSubdirectoryMemory md accessedPath trustedRoots (loadedPaths s);
             s1 = emit (CallLoadJitSubdirectoryMemory accessedPath trustedRoots) s
         in if length files = 0 then ([], s1)
            else (concatenateInstructions md files (getWorkingDir cfg),
                  markAsLoaded (map fst files) s1)))"

definition getEnvironmentMemory :: "ContextManager \<Rightarrow> jsstring" where
  "getEnvironmentMemory s = projectMemory s"

definition getLoadedPaths :: "ContextManager \<Rightarrow> jsstring list" where
  "getLoadedPaths s = loadedPaths s"

definition getMemoryFileDetails :: "ContextManager \<Rightarrow> MemoryFileDetail list" where
  "getMemoryFileDetails s = memoryFileDetails s"

subsection \<open>Auxiliary notions and example values\<close>

text \<open>
  \<open>is_console\<close> and \<open>is_read\<close> classify the logged effects, \<open>discovery_calls\<close> are the
  discovery calls of a \<open>refresh\<close> whose discovery succeeds, and \<open>detail_of\<close> is the file
  detail that \<open>buildMemoryFileDetails\<close> pushes for one entry of the contents map.
\<close>

definition discovery_calls :: "Config \<Rightarrow> effect list" where
  "discovery_calls cfg = 
     [CallGetGlobalMemoryPaths, CallGetExtensionMemoryPaths] @
     (if isTrustedFolder cfg then [CallGetEnvironmentMemoryPaths (getDirectories cfg)] else [])"

definition is_console :: "effect \<Rightarrow> bool" where
  "is_console e = (case e of ConsoleLoaded fs n \<Rightarrow> True | ConsoleNoneLoaded \<Rightarrow> True | _ \<Rightarrow> False)"

definition detail_of :: "jsstring list tiers \<Rightarrow> jsstring \<times> GeminiFileContent \<Rightarrow> MemoryFileDetail list" where
  "detail_of paths e =
     (case content (snd e) of
        None \<Rightarrow> []
      | Some t \<Rightarrow>
          [\<lparr>path = fst e,
            tier = (if fst e \<in> set (global paths) then Global
                    else if fst e \<in> set (extension paths) then Extension
                    else Project),
            chars = length t\<rparr>])"

definition example_discovery :: memoryDiscovery where
  "example_discovery =
     \<lparr>getGlobalMemoryPaths = (\<lambda>_. Inr [U ''/home/GEMINI.md'']),
      getExtensionMemoryPaths = Inr [U ''/ext/GEMINI.md'', U ''/w/GEMINI.md''],
      getEnvironmentMemoryPaths = (\<lambda>_ _. Inr [U ''/w/GEMINI.md'', U ''/w/gone.md'']),
      readGeminiMdFiles =
        (\<lambda>ps _. map (\<lambda>p. \<lparr>filePath = p,
                              content = (if p = U ''/w/gone.md'' then None else Some (U ''text''))\<rparr>) ps),
      categorizeAndConcatenate =
        (\<lambda>_ _ _. \<lparr>global = Some (U ''G''), extension = Some (U ''E''), project = Some (U ''P'')\<rparr>),
      concatenateInstructions = (\<lambda>fs _. concat (map snd fs)),
      upwardMemoryFiles = (\<lambda>_ _. [U ''/w/sub/GEMINI.md'', U ''/w/GEMINI.md'']),
      readMemoryFile = (\<lambda>p. if p = U ''/w/sub/GEMINI.md'' then Some (U ''sub'') else None),
      globalSettlesFirst = True\<rparr>"

definition example_throwing :: memoryDiscovery where
  "example_throwing = example_discovery\<lparr>getExtensionMemoryPaths := Inl (Thrown (U ''registry''))\<rparr>"

definition example_config :: "bool \<Rightarrow> Config" where
  "example_config trusted =
     \<lparr>isTrustedFolder = trusted, getDebugMode = False, getDirectories = [U ''/w''],
      getWorkingDir = U ''/w'', getMcpInstructions = Some (U '' mcp'')\<rparr>"

definition example_manager :: ContextManager where
  "example_manager =
     \<lparr>loadedPaths = [U ''/old.md''], globalMemory = U ''g'', extensionMemory = U ''e'',
      projectMemory = U ''old project memory'', memoryFileDetails = [], effects = []\<rparr>"

definition is_read :: "effect \<Rightarrow> bool" where
  "is_read e = (case e of CallReadGeminiMdFiles ps \<Rightarrow> True | _ \<Rightarrow> False)"

definition example_paths :: "jsstring list tiers" where
  "example_paths =
     \<lparr>global = [U ''/home/GEMINI.md''],
      extension = [U ''/ext/GEMINI.md'', U ''/w/GEMINI.md''],
      project = [U ''/w/GEMINI.md'', U ''/w/gone.md'']\<rparr>"

subsection \<open>Sets, maps and strings\<close>

lemma set_foldl_Set_add: "set (foldl Set_add xs ys) = set xs \<union> set ys"
  by (induction ys arbitrary: xs) (auto simp: Set_add_def)

lemma distinct_foldl_Set_add: "distinct xs \<Longrightarrow> distinct (foldl Set_add xs ys)"
  by (induction ys arbitrary: xs) (auto simp: Set_add_def)

lemma set_Set_new: "set (Set_new xs) = set xs"
  by (simp add: Set_new_def set_foldl_Set_add)

lemma distinct_Set_new: "distinct (Set_new xs)"
  by (simp add: Set_new_def distinct_foldl_Set_add)

lemma key_in_Map_set: "fst ` set (Map_set m kv) = insert (fst kv) (fst ` set m)"
  by (auto simp: Map_set_def image_iff)

lemma keys_replace: "map fst (map (\<lambda>e. if fst e = fst kv then kv else e) m) = map fst m"
  by (induction m) auto

lemma distinct_Map_set: "distinct (map fst m) \<Longrightarrow> distinct (map fst (Map_set m kv))"
  unfolding Map_set_def using keys_replace [of kv m] by (auto simp del: map_map)

lemma entries_Map_set: "set (Map_set m kv) \<subseteq> insert kv (set m)"
  by (auto simp: Map_set_def)

lemma distinct_foldl_Map_set:
  "distinct (map fst m) \<Longrightarrow> distinct (map fst (foldl Map_set m es))"
  by (induction es arbitrary: m) (auto simp: distinct_Map_set)

lemma entries_foldl_Map_set: "set (foldl Map_set m es) \<subseteq> set m \<union> set es"
proof (induction es arbitrary: m)
  case Nil
  then show ?case by simp
next
  case (Cons e es)
  from Cons.IH [of "Map_set m e"] entries_Map_set [of m e]
  show ?case by auto
qed

lemma distinct_Map_new: "distinct (map fst (Map_new es))"
  by (simp add: Map_new_def distinct_foldl_Map_set)

lemma entries_Map_new: "set (Map_new es) \<subseteq> set es"
  using entries_foldl_Map_set [of "[]" es] by (simp add: Map_new_def)

lemma U_eq_iff [simp]: "U a = U b \<longleftrightarrow> a = b"
  by (simp add: U_def inj_map_eq_map [OF inj_of_char])

lemma length_U [simp]: "length (U a) = length a"
  by (simp add: U_def)

lemma U_Nil [simp]: "U [] = []" "U a = [] \<longleftrightarrow> a = []"
  by (simp_all add: U_def)

subsection \<open>The steps of \<open>refresh\<close>\<close>

lemma emit_fields [simp]:
  "loadedPaths (emit e s) = loadedPaths s"
  "projectMemory (emit e s) = projectMemory s"
  "globalMemory (emit e s) = globalMemory s"
  "extensionMemory (emit e s) = extensionMemory s"
  "memoryFileDetails (emit e s) = memoryFileDetails s"
  "effects (emit e s) = effects s @ [e]"
  by (simp_all add: emit_def)

lemma markAsLoaded_fields [simp]:
  "loadedPaths (markAsLoaded ps s) = foldl Set_add (loadedPaths s) ps"
  "projectMemory (markAsLoaded ps s) = projectMemory s"
  "globalMemory (markAsLoaded ps s) = globalMemory s"
  "extensionMemory (markAsLoaded ps s) = extensionMemory s"
  "memoryFileDetails (markAsLoaded ps s) = memoryFileDetails s"
  "effects (markAsLoaded ps s) = effects s"
  by (simp_all add: markAsLoaded_def)

lemma emitMemoryChanged_fields [simp]:
  "loadedPaths (emitMemoryChanged s) = loadedPaths s"
  "projectMemory (emitMemoryChanged s) = projectMemory s"
  "memoryFileDetails (emitMemoryChanged s) = memoryFileDetails s"
  "effects (emitMemoryChanged s) = effects s @ [EmitMemoryChanged (length (loadedPaths s))]"
  by (simp_all add: emitMemoryChanged_def)

lemma discoverMemoryPaths_untrusted:
  assumes "\<not> isTrustedFolder cfg"
  shows "discoverMemoryPaths md cfg s =
     (case getExtensionMemoryPaths md of
        Inl e \<Rightarrow> Inl e
      | Inr x \<Rightarrow>
          (case getGlobalMemoryPaths md (getDebugMode cfg) of
             Inl e \<Rightarrow> Inl e
           | Inr gl \<Rightarrow> Inr \<lparr>global = gl, extension = x, project = []\<rparr>),
      emit CallGetExtensionMemoryPaths (emit CallGetGlobalMemoryPaths s))"
  using assms by (simp add: discoverMemoryPaths_def Let_def split: sum.splits)

lemma discoverMemoryPaths_fst_state:
  "fst (discoverMemoryPaths md cfg s) = fst (discoverMemoryPaths md cfg t)"
  by (simp add: discoverMemoryPaths_def Let_def split_beta split: sum.splits)

lemma discoverMemoryPaths_fields:
  "loadedPaths (snd (discoverMemoryPaths md cfg s)) = loadedPaths s"
  "memoryFileDetails (snd (discoverMemoryPaths md cfg s)) = memoryFileDetails s"
  "globalMemory (snd (discoverMemoryPaths md cfg s)) = globalMemory s"
  "extensionMemory (snd (discoverMemoryPaths md cfg s)) = extensionMemory s"
  "projectMemory (snd (discoverMemoryPaths md cfg s)) = projectMemory s"
  by (simp_all add: discoverMemoryPaths_def Let_def split_beta split: sum.splits)

lemma discoverMemoryPaths_effects_Inr:
  "fst (discoverMemoryPaths md cfg s) = Inr paths \<Longrightarrow>
   effects (snd (discoverMemoryPaths md cfg s)) = effects s @ discovery_calls cfg"
  by (auto simp add: discoverMemoryPaths_def discovery_calls_def Let_def split_beta split: sum.splits)

lemma discoverMemoryPaths_effects_no_read:
  "CallReadGeminiMdFiles ps \<in> set (effects (snd (discoverMemoryPaths md cfg s)))
   \<Longrightarrow> CallReadGeminiMdFiles ps \<in> set (effects s)"
  by (auto simp add: discoverMemoryPaths_def Let_def split_beta split: sum.splits if_splits)

lemma discoverMemoryPaths_failure:
  assumes "getExtensionMemoryPaths md = Inl e
     \<or> getGlobalMemoryPaths md (getDebugMode cfg) = Inl e
     \<or> (isTrustedFolder cfg
         \<and> getEnvironmentMemoryPaths md (getDirectories cfg) (getDebugMode cfg) = Inl e)"
  shows "\<exists>e'. fst (discoverMemoryPaths md cfg s) = Inl e'"
  using assms
  by (auto simp: discoverMemoryPaths_def Let_def split_beta split: sum.splits)

lemma loadMemoryContents_fields:
  "fst (loadMemoryContents md cfg paths s) =
     Map_new (map (\<lambda>c. (filePath c, c)) (readGeminiMdFiles md (allPaths paths) (getDebugMode cfg)))"
  "loadedPaths (snd (loadMemoryContents md cfg paths s)) =
     foldl Set_add (loadedPaths s)
       (map filePath (filter (\<lambda>c. content c \<noteq> None)
          (readGeminiMdFiles md (allPaths paths) (getDebugMode cfg))))"
  "memoryFileDetails (snd (loadMemoryContents md cfg paths s)) = memoryFileDetails s"
  "globalMemory (snd (loadMemoryContents md cfg paths s)) = globalMemory s"
  "extensionMemory (snd (loadMemoryContents md cfg paths s)) = extensionMemory s"
  "projectMemory (snd (loadMemoryContents md cfg paths s)) = projectMemory s"
  by (simp_all add: loadMemoryContents_def Let_def)

lemma loadMemoryContents_effects:
  "\<exists>e. effects (snd (loadMemoryContents md cfg paths s)) =
     effects s @ [CallReadGeminiMdFiles (allPaths paths), e] \<and> is_console e"
  by (simp add: loadMemoryContents_def Let_def is_console_def)

lemma details_foldl:
  "foldl (\<lambda>details (fp, c).
             case content c of
               None \<Rightarrow> details
             | Some t \<Rightarrow>
                 details @
                   [\<lparr>path = fp,
                     tier = (if fp \<in> set (Set_new (global paths)) then Global
                             else if fp \<in> set (Set_new (extension paths)) then Extension
                             else Project),
                     chars = length t\<rparr>])
      acc cm = acc @ concat (map (detail_of paths) cm)"
  by (induction cm arbitrary: acc)
     (auto simp: detail_of_def set_Set_new split: option.splits)

lemma detail_paths:
  "map path (concat (map (detail_of paths) cm)) =
     map fst (filter (\<lambda>e. content (snd e) \<noteq> None) cm)"
  by (induction cm) (auto simp: detail_of_def split: option.splits)

lemma detail_tier:
  "d \<in> set (concat (map (detail_of paths) cm)) \<Longrightarrow>
   tier d = (if path d \<in> set (global paths) then Global
             else if path d \<in> set (extension paths) then Extension else Project)"
  by (auto simp: detail_of_def split: option.splits)

lemma buildMemoryFileDetails_fields:
  "memoryFileDetails (buildMemoryFileDetails paths cm s) = concat (map (detail_of paths) cm)"
  "loadedPaths (buildMemoryFileDetails paths cm s) = loadedPaths s"
  "globalMemory (buildMemoryFileDetails paths cm s) = globalMemory s"
  "extensionMemory (buildMemoryFileDetails paths cm s) = extensionMemory s"
  "projectMemory (buildMemoryFileDetails paths cm s) = projectMemory s"
  "effects (buildMemoryFileDetails paths cm s) = effects s"
  by (simp_all add: buildMemoryFileDetails_def Let_def details_foldl)

lemma categorizeMemoryContents_fields:
  "memoryFileDetails (categorizeMemoryContents md cfg paths cm s) = memoryFileDetails s"
  "loadedPaths (categorizeMemoryContents md cfg paths cm s) = loadedPaths s"
  "effects (categorizeMemoryContents md cfg paths cm s) = effects s"
  by (simp_all add: categorizeMemoryContents_def Let_def)

lemma categorize_projectMemory:
  "projectMemory (categorizeMemoryContents md cfg paths cm s) =
     (if isTrustedFolder cfg
      then join (U ''\<newline>\<newline>'')
              (map or_empty
                (filter truthy [project (categorizeAndConcatenate md paths cm (getWorkingDir cfg)),
                   Some (trimStart (or_empty (getMcpInstructions cfg)))]))
      else [])"
  by (simp add: categorizeMemoryContents_def Let_def)

lemma set_allPaths:
  "set (allPaths paths) = set (global paths) \<union> set (extension paths) \<union> set (project paths)"
  by (auto simp add: allPaths_def set_Set_new)

lemma distinct_allPaths: "distinct (allPaths paths)"
  by (simp add: allPaths_def distinct_Set_new)

lemma refresh_success_state:
  assumes "discoverMemoryPaths md cfg (s\<lparr>loadedPaths := [], memoryFileDetails := []\<rparr>) = (Inr paths, s1)"
  shows "refresh md cfg s =
    (Inr (),
     emitMemoryChanged
       (categorizeMemoryContents md cfg paths (fst (loadMemoryContents md cfg paths s1))
         (buildMemoryFileDetails paths (fst (loadMemoryContents md cfg paths s1))
           (snd (loadMemoryContents md cfg paths s1)))))"
  using assms by (simp add: refresh_def Let_def split_beta)

lemma refresh_failure_state:
  assumes "discoverMemoryPaths md cfg (s\<lparr>loadedPaths := [], memoryFileDetails := []\<rparr>) = (Inl e, s1)"
  shows "refresh md cfg s = (Inl e, s1)"
  using assms by (simp add: refresh_def Let_def)

lemma refresh_untrusted_projectMemory:
  assumes "\<not> isTrustedFolder cfg" "refresh md cfg s = (Inr u, s')"
  shows "projectMemory s' = []"
proof -
  obtain r s1 where d: "discoverMemoryPaths md cfg (s\<lparr>loadedPaths := [], memoryFileDetails := []\<rparr>) = (r, s1)"
    by (cases "discoverMemoryPaths md cfg (s\<lparr>loadedPaths := [], memoryFileDetails := []\<rparr>)")
  show ?thesis
  proof (cases r)
    case (Inl e)
    with d assms(2) show ?thesis by (simp add: refresh_failure_state)
  next
    case (Inr paths)
    with d assms show ?thesis
      by (auto simp add: refresh_success_state categorize_projectMemory)
  qed
qed

lemma refresh_cases:
  "(\<exists>e. fst (discoverMemoryPaths md cfg s) = Inl e \<and>
        refresh md cfg s =
          (Inl e, snd (discoverMemoryPaths md cfg (s\<lparr>loadedPaths := [], memoryFileDetails := []\<rparr>))))
   \<or> (\<exists>paths. fst (discoverMemoryPaths md cfg s) = Inr paths \<and>
        refresh md cfg s =
          (Inr (),
           emitMemoryChanged
            (categorizeMemoryContents md cfg paths
              (fst (loadMemoryContents md cfg paths
                 (snd (discoverMemoryPaths md cfg (s\<lparr>loadedPaths := [], memoryFileDetails := []\<rparr>)))))
              (buildMemoryFileDetails paths
                (fst (loadMemoryContents md cfg paths
                   (snd (discoverMemoryPaths md cfg (s\<lparr>loadedPaths := [], memoryFileDetails := []\<rparr>)))))
                (snd (loadMemoryContents md cfg paths
                   (snd (discoverMemoryPaths md cfg (s\<lparr>loadedPaths := [], memoryFileDetails := []\<rparr>)))))))))"
proof -
  let ?s0 = "s\<lparr>loadedPaths := [], memoryFileDetails := []\<rparr>"
  obtain r s1 where d: "discoverMemoryPaths md cfg ?s0 = (r, s1)"
    by (cases "discoverMemoryPaths md cfg ?s0")
  have f: "fst (discoverMemoryPaths md cfg s) = r"
    using d discoverMemoryPaths_fst_state [of md cfg s ?s0] by simp
  show ?thesis
  proof (cases r)
    case (Inl e)
    with d f show ?thesis by (simp add: refresh_failure_state)
  next
    case (Inr paths)
    with d f show ?thesis by (simp add: refresh_success_state)
  qed
qed

lemma refresh_success:
  assumes "fst (discoverMemoryPaths md cfg s) = Inr paths"
  defines "cs \<equiv> readGeminiMdFiles md (allPaths paths) (getDebugMode cfg)"
  shows "\<exists>s'. refresh md cfg s = (Inr (), s')
     \<and> loadedPaths s' = Set_new (map filePath (filter (\<lambda>c. content c \<noteq> None) cs))
     \<and> memoryFileDetails s' =
         concat (map (detail_of paths) (Map_new (map (\<lambda>c. (filePath c, c)) cs)))
     \<and> (\<exists>e. effects s' =
           effects s @ discovery_calls cfg @
             [CallReadGeminiMdFiles (allPaths paths), e, EmitMemoryChanged (length (loadedPaths s'))]
           \<and> is_console e)"
proof -
  let ?s0 = "s\<lparr>loadedPaths := [], memoryFileDetails := []\<rparr>"
  let ?s1 = "snd (discoverMemoryPaths md cfg ?s0)"
  have f0: "fst (discoverMemoryPaths md cfg ?s0) = Inr paths"
    using assms(1) discoverMemoryPaths_fst_state [of md cfg s ?s0] by simp
  have e1: "effects ?s1 = effects s @ discovery_calls cfg"
    using discoverMemoryPaths_effects_Inr [OF f0] by simp
  obtain e where e2: "effects (snd (loadMemoryContents md cfg paths ?s1)) =
      effects ?s1 @ [CallReadGeminiMdFiles (allPaths paths), e]" and ne: "is_console e"
    using loadMemoryContents_effects [of md cfg paths ?s1] by blast
  from refresh_cases [of md cfg s] assms(1)
  have r: "refresh md cfg s =
          (Inr (),
           emitMemoryChanged
            (categorizeMemoryContents md cfg paths
              (fst (loadMemoryContents md cfg paths ?s1))
              (buildMemoryFileDetails paths
                (fst (loadMemoryContents md cfg paths ?s1))
                (snd (loadMemoryContents md cfg paths ?s1)))))"
    by auto
  show ?thesis
    unfolding r cs_def using ne
    by (simp add: categorizeMemoryContents_fields buildMemoryFileDetails_fields
        loadMemoryContents_fields discoverMemoryPaths_fields e1 e2 Set_new_def)
qed

lemma refresh_failure:
  assumes "fst (discoverMemoryPaths md cfg s) = Inl e"
  shows "\<exists>s'. refresh md cfg s = (Inl e, s')
     \<and> loadedPaths s' = [] \<and> memoryFileDetails s' = []
     \<and> globalMemory s' = globalMemory s \<and> extensionMemory s' = extensionMemory s
     \<and> projectMemory s' = projectMemory s
     \<and> (\<forall>ps. CallReadGeminiMdFiles ps \<in> set (effects s') \<longrightarrow> CallReadGeminiMdFiles ps \<in> set (effects s))"
proof -
  let ?s0 = "s\<lparr>loadedPaths := [], memoryFileDetails := []\<rparr>"
  from refresh_cases [of md cfg s] assms
  have r: "refresh md cfg s = (Inl e, snd (discoverMemoryPaths md cfg ?s0))" by auto
  have "\<And>ps. CallReadGeminiMdFiles ps \<in> set (effects (snd (discoverMemoryPaths md cfg ?s0)))
     \<Longrightarrow> CallReadGeminiMdFiles ps \<in> set (effects s)"
    using discoverMemoryPaths_effects_no_read [of _ md cfg ?s0] by simp
  then show ?thesis
    unfolding r by (simp add: discoverMemoryPaths_fields)
qed

subsection \<open>The example\<close>

lemmas example_defs = example_discovery_def example_config_def example_manager_def

lemma example_discovered:
  "fst (discoverMemoryPaths example_discovery (example_config True) s) = Inr example_paths"
  by (simp add: discoverMemoryPaths_def example_defs example_paths_def Let_def)

lemma example_allPaths:
  "allPaths example_paths =
     [U ''/home/GEMINI.md'', U ''/ext/GEMINI.md'', U ''/w/GEMINI.md'', U ''/w/gone.md'']"
  by (simp add: allPaths_def example_paths_def Set_new_def Set_add_def)

lemma example_refresh:
  "refresh example_discovery (example_config True) example_manager =
     (Inr (),
      \<lparr>loadedPaths = [U ''/home/GEMINI.md'', U ''/ext/GEMINI.md'', U ''/w/GEMINI.md''],
       globalMemory = U ''G'', extensionMemory = U ''E'',
       projectMemory = U ''P'' @ U ''\<newline>\<newline>'' @ U ''mcp'',
       memoryFileDetails =
         [\<lparr>path = U ''/home/GEMINI.md'', tier = Global, chars = 4\<rparr>,
          \<lparr>path = U ''/ext/GEMINI.md'', tier = Extension, chars = 4\<rparr>,
          \<lparr>path = U ''/w/GEMINI.md'', tier = Extension, chars = 4\<rparr>],
       effects =
         [CallGetGlobalMemoryPaths, CallGetExtensionMemoryPaths,
          CallGetEnvironmentMemoryPaths [U ''/w''],
          CallReadGeminiMdFiles
            [U ''/home/GEMINI.md'', U ''/ext/GEMINI.md'', U ''/w/GEMINI.md'', U ''/w/gone.md''],
          ConsoleLoaded [U ''/home/GEMINI.md'', U ''/ext/GEMINI.md'', U ''/w/GEMINI.md''] 12,
          EmitMemoryChanged 3]\<rparr>)"
proof -
  have d: "discoverMemoryPaths example_discovery (example_config True)
       (example_manager\<lparr>loadedPaths := [], memoryFileDetails := []\<rparr>) =
     (Inr example_paths,
      example_manager\<lparr>loadedPaths := [],
        effects := [CallGetGlobalMemoryPaths, CallGetExtensionMemoryPaths,
          CallGetEnvironmentMemoryPaths [U ''/w'']]\<rparr>)"
    by (simp add: discoverMemoryPaths_def example_defs example_paths_def Let_def emit_def)
  have t: "trimStart (U '' mcp'') = U ''mcp''"
    by (simp add: trimStart_def U_def is_space_def)
  have g: "global example_paths = [U ''/home/GEMINI.md'']"
    "extension example_paths = [U ''/ext/GEMINI.md'', U ''/w/GEMINI.md'']"
    by (simp_all add: example_paths_def)
  show ?thesis
    unfolding refresh_success_state [OF d]
    by (simp add: loadMemoryContents_def buildMemoryFileDetails_def categorizeMemoryContents_def
        emitMemoryChanged_def markAsLoaded_def emit_def Let_def example_allPaths g t
        example_defs Set_new_def Set_add_def Map_new_def Map_set_def
        content_length_def or_empty_def truthy_def)
qed

subsection \<open>The claims on the manager\<close>

text \<open>
  Claim C1 says that with a folder that is not trusted \<open>refresh\<close> leaves an empty project
  memory, in every state. Here the folder is not trusted, the manager holds a project
  memory from an earlier refresh, and the extension registry throws: \<open>refresh\<close> fails in
  the discovery, before it assigns the project memory, and \<open>getEnvironmentMemory\<close> still
  returns the old text.
\<close>

theorem trust_gate_counterexample:
  "\<not> isTrustedFolder (example_config False)
   \<and> refresh example_throwing (example_config False) example_manager =
       (Inl (Thrown (U ''registry'')),
        example_manager\<lparr>loadedPaths := [],
          effects := [CallGetGlobalMemoryPaths, CallGetExtensionMemoryPaths]\<rparr>)
   \<and> getEnvironmentMemory
        (snd (refresh example_throwing (example_config False) example_manager))
       = U ''old project memory''
   \<and> U ''old project memory'' \<noteq> []"
  by (simp add: refresh_def discoverMemoryPaths_def example_throwing_def example_defs emit_def
      Let_def getEnvironmentMemory_def)

text \<open>
  Claim C1, amended (trust gate). In every state of the manager, with a folder that is not
  trusted: the discovery of \<open>refresh\<close> finds no project path and \<open>refresh\<close> never calls the
  project discovery; \<open>refresh\<close> completes whenever the global and the extension discovery
  do, and when it completes \<open>getEnvironmentMemory\<close> is the empty string, whatever the MCP
  instructions are; when \<open>refresh\<close> fails, \<open>getEnvironmentMemory\<close> is what it was before the
  call; \<open>discoverContext\<close> returns the empty string for every accessed path and leaves the
  whole state as it was: the loaded paths and the log of calls, so no walk was made.
\<close>

theorem trust_gate:
  assumes "\<not> isTrustedFolder cfg"
  shows "(\<forall>paths. fst (discoverMemoryPaths md cfg s) = Inr paths \<longrightarrow> project paths = [])
    \<and> (\<forall>d. CallGetEnvironmentMemoryPaths d \<in> set (effects (snd (refresh md cfg s)))
          \<longrightarrow> CallGetEnvironmentMemoryPaths d \<in> set (effects s))
    \<and> (\<forall>gl x. getGlobalMemoryPaths md (getDebugMode cfg) = Inr gl \<and> getExtensionMemoryPaths md = Inr x
          \<longrightarrow> fst (refresh md cfg s) = Inr ())
    \<and> (fst (refresh md cfg s) = Inr () \<longrightarrow> getEnvironmentMemory (snd (refresh md cfg s)) = [])
    \<and> (\<forall>e. fst (refresh md cfg s) = Inl e
          \<longrightarrow> getEnvironmentMemory (snd (refresh md cfg s)) = getEnvironmentMemory s)
    \<and> discoverContext md cfg p roots s = ([], s)"
proof -
  have a: "\<forall>paths. fst (discoverMemoryPaths md cfg s) = Inr paths \<longrightarrow> project paths = []"
    using assms by (auto simp: discoverMemoryPaths_untrusted split: sum.splits)
  have b: "\<forall>gl x. getGlobalMemoryPaths md (getDebugMode cfg) = Inr gl \<and> getExtensionMemoryPaths md = Inr x
          \<longrightarrow> fst (refresh md cfg s) = Inr ()"
  proof (intro allI impI)
    fix gl x
    assume h: "getGlobalMemoryPaths md (getDebugMode cfg) = Inr gl \<and> getExtensionMemoryPaths md = Inr x"
    then have "fst (discoverMemoryPaths md cfg s) = Inr \<lparr>global = gl, extension = x, project = []\<rparr>"
      using assms by (simp add: discoverMemoryPaths_untrusted)
    from refresh_success [OF this] show "fst (refresh md cfg s) = Inr ()" by auto
  qed
  have c: "fst (refresh md cfg s) = Inr () \<longrightarrow> getEnvironmentMemory (snd (refresh md cfg s)) = []"
    using refresh_untrusted_projectMemory [OF assms, of md s "()" "snd (refresh md cfg s)"]
    by (cases "refresh md cfg s") (simp add: getEnvironmentMemory_def)
  have f: "\<forall>e. fst (refresh md cfg s) = Inl e
          \<longrightarrow> getEnvironmentMemory (snd (refresh md cfg s)) = getEnvironmentMemory s"
  proof (intro allI impI)
    fix e
    assume h: "fst (refresh md cfg s) = Inl e"
    from refresh_cases [of md cfg s] h
    have "fst (discoverMemoryPaths md cfg s) = Inl e" by auto
    from refresh_failure [OF this] show
      "getEnvironmentMemory (snd (refresh md cfg s)) = getEnvironmentMemory s"
      by (auto simp: getEnvironmentMemory_def)
  qed
  have d: "\<forall>d. CallGetEnvironmentMemoryPaths d \<in> set (effects (snd (refresh md cfg s)))
          \<longrightarrow> CallGetEnvironmentMemoryPaths d \<in> set (effects s)"
  proof (intro allI impI)
    fix d
    assume h: "CallGetEnvironmentMemoryPaths d \<in> set (effects (snd (refresh md cfg s)))"
    let ?s0 = "s\<lparr>loadedPaths := [], memoryFileDetails := []\<rparr>"
    have e0: "effects (snd (discoverMemoryPaths md cfg ?s0)) =
        effects s @ [CallGetGlobalMemoryPaths, CallGetExtensionMemoryPaths]"
      using assms by (simp add: discoverMemoryPaths_untrusted)
    from refresh_cases [of md cfg s]
    show "CallGetEnvironmentMemoryPaths d \<in> set (effects s)"
    proof (elim disjE exE conjE)
      fix e
      assume "refresh md cfg s = (Inl e, snd (discoverMemoryPaths md cfg ?s0))"
      with h e0 show ?thesis by auto
    next
      fix paths
      assume f: "fst (discoverMemoryPaths md cfg s) = Inr paths"
      from refresh_success [OF f] obtain s' e where
        r: "refresh md cfg s = (Inr (), s')" and
        e: "effects s' = effects s @ discovery_calls cfg @
             [CallReadGeminiMdFiles (allPaths paths), e, EmitMemoryChanged (length (loadedPaths s'))]"
        and ne: "is_console e" by blast
      from ne have "\<And>d. e \<noteq> CallGetEnvironmentMemoryPaths d"
        by (auto simp: is_console_def)
      with h r e assms show ?thesis by (auto simp: discovery_calls_def)
    qed
  qed
  have e: "discoverContext md cfg p roots s = ([], s)"
    using assms by (simp add: discoverContext_def)
  from a b c d e f show ?thesis by blast
qed

text \<open>The gate at an untrusted folder that has MCP instructions and an old project memory.\<close>

theorem trust_gate_witness:
  "\<not> isTrustedFolder (example_config False)
   \<and> fst (refresh example_discovery (example_config False) example_manager) = Inr ()
   \<and> getEnvironmentMemory (snd (refresh example_discovery (example_config False) example_manager)) = []
   \<and> fst (refresh example_throwing (example_config False) example_manager)
       = Inl (Thrown (U ''registry''))
   \<and> getEnvironmentMemory (snd (refresh example_throwing (example_config False) example_manager))
       = getEnvironmentMemory example_manager
   \<and> discoverContext example_discovery (example_config False) (U ''/w/sub/a.ts'') [U ''/w'']
        example_manager = ([], example_manager)"
proof -
  have h: "\<not> isTrustedFolder (example_config False)"
    by (simp add: example_config_def)
  have g: "getGlobalMemoryPaths example_discovery (getDebugMode (example_config False))
             = Inr [U ''/home/GEMINI.md'']
           \<and> getExtensionMemoryPaths example_discovery = Inr [U ''/ext/GEMINI.md'', U ''/w/GEMINI.md'']"
    by (simp add: example_defs)
  have t: "fst (refresh example_throwing (example_config False) example_manager)
       = Inl (Thrown (U ''registry''))"
    by (simp add: refresh_def discoverMemoryPaths_def example_throwing_def example_defs emit_def
        Let_def)
  from trust_gate [OF h, of example_throwing example_manager] t
  have "getEnvironmentMemory (snd (refresh example_throwing (example_config False) example_manager))
       = getEnvironmentMemory example_manager" by blast
  with trust_gate [OF h, of example_discovery example_manager "U ''/w/sub/a.ts''" "[U ''/w'']"] g h t
  show ?thesis by blast
qed

lemma loadJit_again:
  "loadJitSubdirectoryMemory md p roots
     (foldl Set_add loaded (map fst (loadJitSubdirectoryMemory md p roots loaded))) = []"
proof -
  let ?F = "loadJitSubdirectoryMemory md p roots loaded"
  have "\<And>q. q \<in> set (upwardMemoryFiles md p roots) \<Longrightarrow>
      (if q \<in> set (foldl Set_add loaded (map fst ?F)) then None
       else (case readMemoryFile md q of None \<Rightarrow> None | Some t \<Rightarrow> Some (q, t))) = None"
  proof -
    fix q
    assume q: "q \<in> set (upwardMemoryFiles md p roots)"
    show "(if q \<in> set (foldl Set_add loaded (map fst ?F)) then None
       else (case readMemoryFile md q of None \<Rightarrow> None | Some t \<Rightarrow> Some (q, t))) = None"
    proof (cases "q \<in> set loaded \<or> readMemoryFile md q = None")
      case True
      then show ?thesis by (auto simp: set_foldl_Set_add)
    next
      case False
      then obtain t where t: "readMemoryFile md q = Some t" and nl: "q \<notin> set loaded" by auto
      with q have "(q, t) \<in> set ?F"
        by (force simp: loadJitSubdirectoryMemory_def List.map_filter_def)
      then have "q \<in> fst ` set ?F" by force
      then show ?thesis by (simp add: set_foldl_Set_add)
    qed
  qed
  then show ?thesis
    unfolding loadJitSubdirectoryMemory_def [of md p roots "foldl Set_add loaded (map fst ?F)"]
    by (simp add: List.map_filter_def filter_empty_conv)
qed

text \<open>
  Claim C2 (idempotence of the just-in-time load). After \<open>discoverContext p roots\<close> the set
  of loaded paths contains the set before the call; a second call with the same arguments
  and no \<open>refresh\<close> in between returns the empty string and leaves the loaded paths, and so
  their number, unchanged.
\<close>

theorem discoverContext_idempotent:
  assumes "discoverContext md cfg p roots s = (out1, s1)"
    and "discoverContext md cfg p roots s1 = (out2, s2)"
  shows "set (getLoadedPaths s) \<subseteq> set (getLoadedPaths s1)
    \<and> out2 = []
    \<and> getLoadedPaths s2 = getLoadedPaths s1
    \<and> length (getLoadedPaths s2) = length (getLoadedPaths s1)"
proof (cases "isTrustedFolder cfg")
  case False
  with assms show ?thesis by (simp add: discoverContext_def)
next
  case True
  let ?F = "loadJitSubdirectoryMemory md p roots (loadedPaths s)"
  have l1: "loadedPaths s1 = foldl Set_add (loadedPaths s) (map fst ?F)"
    using assms(1) True by (auto simp: discoverContext_def Let_def split: if_splits)
  have "loadJitSubdirectoryMemory md p roots (loadedPaths s1) = []"
    unfolding l1 by (rule loadJit_again)
  with assms(2) True have "out2 = [] \<and> loadedPaths s2 = loadedPaths s1"
    by (auto simp: discoverContext_def Let_def)
  with l1 show ?thesis by (auto simp: getLoadedPaths_def set_foldl_Set_add)
qed

text \<open>Two calls in a trusted folder: the first loads one file, the second none.\<close>

theorem discoverContext_idempotent_witness:
  "discoverContext example_discovery (example_config True) (U ''/w/sub/a.ts'') [U ''/w'']
      example_manager =
        (U ''sub'',
         example_manager\<lparr>loadedPaths := [U ''/old.md'', U ''/w/sub/GEMINI.md''],
           effects := [CallLoadJitSubdirectoryMemory (U ''/w/sub/a.ts'') [U ''/w'']]\<rparr>)
   \<and> fst (discoverContext example_discovery (example_config True) (U ''/w/sub/a.ts'') [U ''/w'']
      (example_manager\<lparr>loadedPaths := [U ''/old.md'', U ''/w/sub/GEMINI.md''],
           effects := [CallLoadJitSubdirectoryMemory (U ''/w/sub/a.ts'') [U ''/w'']]\<rparr>)) = []
   \<and> length (getLoadedPaths (snd (discoverContext example_discovery (example_config True) (U ''/w/sub/a.ts'') [U ''/w'']
      (example_manager\<lparr>loadedPaths := [U ''/old.md'', U ''/w/sub/GEMINI.md''],
           effects := [CallLoadJitSubdirectoryMemory (U ''/w/sub/a.ts'') [U ''/w'']]\<rparr>)))) = 2"
proof -
  let ?s1 = "example_manager\<lparr>loadedPaths := [U ''/old.md'', U ''/w/sub/GEMINI.md''],
           effects := [CallLoadJitSubdirectoryMemory (U ''/w/sub/a.ts'') [U ''/w'']]\<rparr>"
  have 1: "discoverContext example_discovery (example_config True) (U ''/w/sub/a.ts'') [U ''/w'']
      example_manager = (U ''sub'', ?s1)"
    by (simp add: discoverContext_def loadJitSubdirectoryMemory_def List.map_filter_def
        example_defs Let_def markAsLoaded_def emit_def Set_add_def)
  obtain out2 s2 where 2: "discoverContext example_discovery (example_config True) (U ''/w/sub/a.ts'') [U ''/w'']
      ?s1 = (out2, s2)" by (cases "discoverContext example_discovery (example_config True) (U ''/w/sub/a.ts'') [U ''/w''] ?s1")
  from discoverContext_idempotent [OF 1 2] 1 2 show ?thesis
    by (simp add: getLoadedPaths_def example_manager_def)
qed

text \<open>
  Claim C3 says that a tier whose discovery fails counts as empty and the other tiers are
  still loaded. Here the extension registry throws while the global discovery finds a
  readable file: \<open>refresh\<close> fails as a whole, nothing is read and nothing is loaded.
\<close>

theorem discovery_isolation_counterexample:
  "getGlobalMemoryPaths example_throwing (getDebugMode (example_config True)) = Inr [U ''/home/GEMINI.md'']
   \<and> getExtensionMemoryPaths example_throwing = Inl (Thrown (U ''registry''))
   \<and> refresh example_throwing (example_config True) example_manager =
       (Inl (Thrown (U ''registry'')),
        example_manager\<lparr>loadedPaths := [],
          effects := [CallGetGlobalMemoryPaths, CallGetExtensionMemoryPaths]\<rparr>)"
  by (simp add: refresh_def discoverMemoryPaths_def example_throwing_def example_defs emit_def
      Let_def)

text \<open>
  Claim C3, amended (discovery failure). When the discovery of a tier fails (the extension
  discovery throws, the global discovery rejects, or, in a trusted folder, the project
  discovery rejects), \<open>refresh\<close> fails as a whole: no file is read, the loaded paths and
  the file details stay empty, and the three tier buffers keep their former values.
\<close>

theorem discovery_failure_aborts_refresh:
  assumes "getExtensionMemoryPaths md = Inl e
     \<or> getGlobalMemoryPaths md (getDebugMode cfg) = Inl e
     \<or> (isTrustedFolder cfg
         \<and> getEnvironmentMemoryPaths md (getDirectories cfg) (getDebugMode cfg) = Inl e)"
  shows "\<exists>e' s'. refresh md cfg s = (Inl e', s')
     \<and> getLoadedPaths s' = [] \<and> getMemoryFileDetails s' = []
     \<and> globalMemory s' = globalMemory s \<and> extensionMemory s' = extensionMemory s
     \<and> projectMemory s' = projectMemory s
     \<and> (\<forall>ps. CallReadGeminiMdFiles ps \<in> set (effects s')
           \<longrightarrow> CallReadGeminiMdFiles ps \<in> set (effects s))"
proof -
  from discoverMemoryPaths_failure [OF assms, of s]
  obtain e' where "fst (discoverMemoryPaths md cfg s) = Inl e'" by blast
  from refresh_failure [OF this] show ?thesis
    unfolding getLoadedPaths_def getMemoryFileDetails_def by blast
qed

text \<open>The amended claim at the throwing extension registry.\<close>

theorem discovery_failure_aborts_refresh_witness:
  "getExtensionMemoryPaths example_throwing = Inl (Thrown (U ''registry''))
   \<and> (\<exists>e' s'. refresh example_throwing (example_config True) example_manager = (Inl e', s')
        \<and> getLoadedPaths s' = [] \<and> getMemoryFileDetails s' = []
        \<and> projectMemory s' = U ''old project memory'')"
proof -
  have h: "getExtensionMemoryPaths example_throwing = Inl (Thrown (U ''registry''))"
    by (simp add: example_throwing_def)
  from discovery_failure_aborts_refresh [of example_throwing "Thrown (U ''registry'')"
      "example_config True" example_manager] h
  obtain e' s' where "refresh example_throwing (example_config True) example_manager = (Inl e', s')"
    "getLoadedPaths s' = []" "getMemoryFileDetails s' = []"
    "projectMemory s' = projectMemory example_manager" by blast
  moreover have "projectMemory example_manager = U ''old project memory''"
    by (simp add: example_manager_def)
  ultimately show ?thesis using h by auto
qed

text \<open>
  Claim C4 (deduplication and tie-break). When discovery succeeds, \<open>refresh\<close> reads the
  files in one call of the reader, on the list \<open>allPaths\<close>: the union of the three tiers'
  candidates, each path once. The file details hold at most one record per path, and a
  record's tier is global if the global tier names its path, else extension if the
  extension tier does, else project.
\<close>

theorem shared_path_read_once_highest_tier:
  assumes "fst (discoverMemoryPaths md cfg s) = Inr paths"
  shows "\<exists>s'. refresh md cfg s = (Inr (), s')
     \<and> filter is_read (drop (length (effects s)) (effects s'))
         = [CallReadGeminiMdFiles (allPaths paths)]
     \<and> distinct (allPaths paths)
     \<and> set (allPaths paths) = set (global paths) \<union> set (extension paths) \<union> set (project paths)
     \<and> distinct (map path (getMemoryFileDetails s'))
     \<and> (\<forall>d \<in> set (getMemoryFileDetails s').
           tier d = (if path d \<in> set (global paths) then Global
                     else if path d \<in> set (extension paths) then Extension else Project))"
proof -
  let ?cs = "readGeminiMdFiles md (allPaths paths) (getDebugMode cfg)"
  let ?cm = "Map_new (map (\<lambda>c. (filePath c, c)) ?cs)"
  from refresh_success [OF assms] obtain s' e where
    r: "refresh md cfg s = (Inr (), s')" and
    m: "memoryFileDetails s' = concat (map (detail_of paths) ?cm)" and
    e: "effects s' = effects s @ discovery_calls cfg @
             [CallReadGeminiMdFiles (allPaths paths), e, EmitMemoryChanged (length (loadedPaths s'))]"
    and c: "is_console e" by blast
  have 1: "filter is_read (drop (length (effects s)) (effects s'))
         = [CallReadGeminiMdFiles (allPaths paths)]"
    using c unfolding e
    by (cases e) (simp_all add: discovery_calls_def is_read_def is_console_def)
  have 2: "distinct (map path (getMemoryFileDetails s'))"
    unfolding getMemoryFileDetails_def m detail_paths
    by (rule distinct_map_filter) (rule distinct_Map_new)
  have 3: "\<forall>d \<in> set (getMemoryFileDetails s').
           tier d = (if path d \<in> set (global paths) then Global
                     else if path d \<in> set (extension paths) then Extension else Project)"
    unfolding getMemoryFileDetails_def m using detail_tier by blast
  from r 1 2 3 show ?thesis
    using distinct_allPaths set_allPaths by blast
qed

text \<open>A path named by the extension and the project tier is read once and is an extension file.\<close>

theorem shared_path_read_once_highest_tier_witness:
  "fst (discoverMemoryPaths example_discovery (example_config True) example_manager)
     = Inr example_paths
   \<and> U ''/w/GEMINI.md'' \<in> set (extension example_paths) \<inter> set (project example_paths)
   \<and> filter is_read (effects (snd (refresh example_discovery (example_config True) example_manager)))
       = [CallReadGeminiMdFiles
            [U ''/home/GEMINI.md'', U ''/ext/GEMINI.md'', U ''/w/GEMINI.md'', U ''/w/gone.md'']]
   \<and> getMemoryFileDetails (snd (refresh example_discovery (example_config True) example_manager))
       = [\<lparr>path = U ''/home/GEMINI.md'', tier = Global, chars = 4\<rparr>,
          \<lparr>path = U ''/ext/GEMINI.md'', tier = Extension, chars = 4\<rparr>,
          \<lparr>path = U ''/w/GEMINI.md'', tier = Extension, chars = 4\<rparr>]"
proof -
  have h: "fst (discoverMemoryPaths example_discovery (example_config True) example_manager)
     = Inr example_paths" by (rule example_discovered)
  from shared_path_read_once_highest_tier [OF h] obtain s' where
    "refresh example_discovery (example_config True) example_manager = (Inr (), s')"
    "filter is_read (drop (length (effects example_manager)) (effects s'))
         = [CallReadGeminiMdFiles (allPaths example_paths)]" by blast
  then have "filter is_read (effects (snd (refresh example_discovery (example_config True) example_manager)))
       = [CallReadGeminiMdFiles (allPaths example_paths)]"
    by (simp add: example_manager_def)
  moreover have "U ''/w/GEMINI.md'' \<in> set (extension example_paths) \<inter> set (project example_paths)"
    by (simp add: example_paths_def)
  ultimately show ?thesis using h
    by (simp add: example_allPaths example_refresh getMemoryFileDetails_def)
qed

text \<open>
  Claim C5 (failed reads). When discovery succeeds, \<open>refresh\<close> completes whatever the reader
  returns. A path \<open>p\<close> for which the reader returns no content is not among the loaded
  paths and has no file detail; the loaded paths are exactly the paths returned with a
  content, and every file detail belongs to a loaded path.
\<close>

theorem failed_read_not_loaded:
  assumes "fst (discoverMemoryPaths md cfg s) = Inr paths"
    and "\<forall>c \<in> set (readGeminiMdFiles md (allPaths paths) (getDebugMode cfg)).
           filePath c = p \<longrightarrow> content c = None"
  shows "\<exists>s'. refresh md cfg s = (Inr (), s')
     \<and> p \<notin> set (getLoadedPaths s')
     \<and> p \<notin> path ` set (getMemoryFileDetails s')
     \<and> set (getLoadedPaths s') =
         filePath ` {c \<in> set (readGeminiMdFiles md (allPaths paths) (getDebugMode cfg)).
                      content c \<noteq> None}
     \<and> path ` set (getMemoryFileDetails s') \<subseteq> set (getLoadedPaths s')"
proof -
  let ?cs = "readGeminiMdFiles md (allPaths paths) (getDebugMode cfg)"
  let ?cm = "Map_new (map (\<lambda>c. (filePath c, c)) ?cs)"
  from refresh_success [OF assms(1)] obtain s' where
    r: "refresh md cfg s = (Inr (), s')" and
    l: "loadedPaths s' = Set_new (map filePath (filter (\<lambda>c. content c \<noteq> None) ?cs))" and
    m: "memoryFileDetails s' = concat (map (detail_of paths) ?cm)" by blast
  have sl: "set (getLoadedPaths s') = filePath ` {c \<in> set ?cs. content c \<noteq> None}"
    unfolding getLoadedPaths_def l by (auto simp: set_Set_new)
  have sm: "path ` set (getMemoryFileDetails s') \<subseteq> filePath ` {c \<in> set ?cs. content c \<noteq> None}"
  proof
    fix q
    assume "q \<in> path ` set (getMemoryFileDetails s')"
    then have "q \<in> set (map path (concat (map (detail_of paths) ?cm)))"
      unfolding getMemoryFileDetails_def m by simp
    then obtain e where e: "e \<in> set ?cm" "content (snd e) \<noteq> None" "q = fst e"
      unfolding detail_paths by auto
    from e(1) entries_Map_new [of "map (\<lambda>c. (filePath c, c)) ?cs"]
    obtain c where "c \<in> set ?cs" "e = (filePath c, c)" by auto
    with e show "q \<in> filePath ` {c \<in> set ?cs. content c \<noteq> None}" by auto
  qed
  have np: "p \<notin> filePath ` {c \<in> set ?cs. content c \<noteq> None}"
    using assms(2) by auto
  from r sl sm np show ?thesis by auto
qed

text \<open>One unreadable file among four: the other three are loaded.\<close>

theorem failed_read_not_loaded_witness:
  "fst (discoverMemoryPaths example_discovery (example_config True) example_manager)
     = Inr example_paths
   \<and> readGeminiMdFiles example_discovery (allPaths example_paths) False =
       [\<lparr>filePath = U ''/home/GEMINI.md'', content = Some (U ''text'')\<rparr>,
        \<lparr>filePath = U ''/ext/GEMINI.md'', content = Some (U ''text'')\<rparr>,
        \<lparr>filePath = U ''/w/GEMINI.md'', content = Some (U ''text'')\<rparr>,
        \<lparr>filePath = U ''/w/gone.md'', content = None\<rparr>]
   \<and> U ''/w/gone.md'' \<notin> set (getLoadedPaths
         (snd (refresh example_discovery (example_config True) example_manager)))
   \<and> getLoadedPaths (snd (refresh example_discovery (example_config True) example_manager))
       = [U ''/home/GEMINI.md'', U ''/ext/GEMINI.md'', U ''/w/GEMINI.md'']"
proof -
  have h: "fst (discoverMemoryPaths example_discovery (example_config True) example_manager)
     = Inr example_paths" by (rule example_discovered)
  have c: "readGeminiMdFiles example_discovery (allPaths example_paths) False =
       [\<lparr>filePath = U ''/home/GEMINI.md'', content = Some (U ''text'')\<rparr>,
        \<lparr>filePath = U ''/ext/GEMINI.md'', content = Some (U ''text'')\<rparr>,
        \<lparr>filePath = U ''/w/GEMINI.md'', content = Some (U ''text'')\<rparr>,
        \<lparr>filePath = U ''/w/gone.md'', content = None\<rparr>]"
    by (simp add: example_allPaths example_defs)
  have g: "\<forall>c \<in> set (readGeminiMdFiles example_discovery (allPaths example_paths)
              (getDebugMode (example_config True))).
           filePath c = U ''/w/gone.md'' \<longrightarrow> content c = None"
    by (simp add: example_allPaths example_defs)
  from failed_read_not_loaded [OF h g] have
    "U ''/w/gone.md'' \<notin> set (getLoadedPaths
         (snd (refresh example_discovery (example_config True) example_manager)))" by auto
  with h c show ?thesis
    by (simp add: example_refresh getLoadedPaths_def)
qed

section \<open>Regular expressions of the runtime\<close>

text \<open>
  The patterns of the extractor use character classes, sequence, alternation, the greedy
  quantifiers \<open>*\<close>, \<open>+\<close>, \<open>?\<close> and \<open>{0,n}\<close>, the word boundary \<open>\b\<close> and the end anchor \<open>$\<close>.
  An item of a class is a code unit, a range, \<open>\w\<close> or \<open>\s\<close>.
\<close>

datatype citem = Ch jschar | Rng jschar jschar | WordC | SpaceC

datatype regex =
    Cls "citem list"
  | NCls "citem list"
  | Seq regex regex
  | Alt regex regex
  | Star regex
  | Plus regex
  | Opt regex
  | Upto nat regex
  | WordB
  | EndA

definition is_word :: "jschar \<Rightarrow> bool" where
  "is_word c \<longleftrightarrow> (48 \<le> c \<and> c \<le> 57) \<or> (65 \<le> c \<and> c \<le> 90) \<or> c = 95 \<or> (97 \<le> c \<and> c \<le> 122)"

fun in_item :: "citem \<Rightarrow> jschar \<Rightarrow> bool" where
  "in_item (Ch a) c = (c = a)"
| "in_item (Rng a b) c = (a \<le> c \<and> c \<le> b)"
| "in_item WordC c = is_word c"
| "in_item SpaceC c = is_space c"

definition in_class :: "citem list \<Rightarrow> jschar \<Rightarrow> bool" where
  "in_class items c = list_ex (\<lambda>i. in_item i c) items"

text \<open>
  A position in the subject string is a cursor: the text before it, last code unit first,
  and the text after it.
\<close>

type_synonym cursor = "jsstring \<times> jsstring"

definition word_before :: "cursor \<Rightarrow> bool" where
  "word_before cur = (case fst cur of [] \<Rightarrow> False | b # bs \<Rightarrow> is_word b)"

definition word_after :: "cursor \<Rightarrow> bool" where
  "word_after cur = (case snd cur of [] \<Rightarrow> False | a # as \<Rightarrow> is_word a)"

text \<open>
  The backtracking matcher of ECMAScript tries the alternatives of a pattern in a fixed
  order and takes the first that lets the rest of the pattern match. \<open>rmatch r cur\<close> lists,
  in that order, the positions where a match of \<open>r\<close> that starts at \<open>cur\<close> can end; the head
  of the list is the match the runtime reports. \<open>iter f n\<close> is the greedy repetition of at
  most \<open>n\<close> rounds: a round is tried before stopping, and a round that consumes nothing is
  rejected. For \<open>*\<close> and \<open>+\<close> the number of rounds is bounded by the length of the rest of
  the subject, since every round consumes a code unit.
\<close>

fun iter :: "(cursor \<Rightarrow> cursor list) \<Rightarrow> nat \<Rightarrow> cursor \<Rightarrow> cursor list" where
  "iter f 0 cur = [cur]"
| "iter f (Suc n) cur =
     concat (map (\<lambda>c. if length (snd c) < length (snd cur) then iter f n c else []) (f cur))
       @ [cur]"

primrec rmatch :: "regex \<Rightarrow> cursor \<Rightarrow> cursor list" where
  "rmatch (Cls items) =
     (\<lambda>cur. case snd cur of
              [] \<Rightarrow> []
            | c # cs \<Rightarrow> if in_class items c then [(c # fst cur, cs)] else [])"
| "rmatch (NCls items) =
     (\<lambda>cur. case snd cur of
              [] \<Rightarrow> []
            | c # cs \<Rightarrow> if in_class items c then [] else [(c # fst cur, cs)])"
| "rmatch (Seq r1 r2) = (\<lambda>cur. concat (map (rmatch r2) (rmatch r1 cur)))"
| "rmatch (Alt r1 r2) = (\<lambda>cur. rmatch r1 cur @ rmatch r2 cur)"
| "rmatch (Star r) = (\<lambda>cur. iter (rmatch r) (length (snd cur)) cur)"
| "rmatch (Plus r) =
     (\<lambda>cur. concat (map (\<lambda>c. iter (rmatch r) (length (snd c)) c) (rmatch r cur)))"
| "rmatch (Opt r) = (\<lambda>cur. iter (rmatch r) 1 cur)"
| "rmatch (Upto n r) = (\<lambda>cur. iter (rmatch r) n cur)"
| "rmatch WordB = (\<lambda>cur. if word_before cur \<noteq> word_after cur then [cur] else [])"
| "rmatch EndA = (\<lambda>cur. if snd cur = [] then [cur] else [])"

text \<open>
  \<open>search\<close> is the scan of \<open>RegExp.prototype.exec\<close>: the leftmost position at or after the
  cursor where the pattern matches, with the end of the match there. \<open>exec\<close> on a global
  pattern starts at \<open>lastIndex\<close> and leaves \<open>lastIndex\<close> at the end of the match.
\<close>

fun search :: "regex \<Rightarrow> jsstring \<Rightarrow> jsstring \<Rightarrow> (cursor \<times> cursor) option" where
  "search re bef [] =
     (case rmatch re (bef, []) of [] \<Rightarrow> None | e # es \<Rightarrow> Some ((bef, []), e))"
| "search re bef (c # cs) =
     (case rmatch re (bef, c # cs) of
        [] \<Rightarrow> search re (c # bef) cs
      | e # es \<Rightarrow> Some ((bef, c # cs), e))"

definition exec :: "regex \<Rightarrow> cursor \<Rightarrow> (cursor \<times> cursor) option" where
  "exec re lastIndex = search re (fst lastIndex) (snd lastIndex)"

text \<open>The text of a match (\<open>match[0]\<close>), from its two ends.\<close>

definition matched :: "cursor \<times> cursor \<Rightarrow> jsstring" where
  "matched m = take (length (snd (fst m)) - length (snd (snd m))) (snd (fst m))"

text \<open>
  The loop \<open>while ((match = regex.exec(query)) !== null)\<close> on a global pattern, collecting
  the matches. A match that consumes nothing leaves \<open>lastIndex\<close> where it was and the loop
  never ends: the result is \<open>None\<close> then.
\<close>

partial_function (option) exec_loop :: "regex \<Rightarrow> cursor \<Rightarrow> (cursor \<times> cursor) list option" where
  "exec_loop re lastIndex =
     (case exec re lastIndex of
        None \<Rightarrow> Some []
      | Some m \<Rightarrow> Option.bind (exec_loop re (snd m)) (\<lambda>ms. Some (m # ms)))"

declare exec_loop.simps [code]

definition start :: "jsstring \<Rightarrow> cursor" where
  "start s = ([], s)"

subsection \<open>Every match lies within the subject\<close>

text \<open>
  \<open>advances cur e\<close>: the cursor \<open>e\<close> is the cursor \<open>cur\<close> moved forward over some text.
\<close>

definition advances :: "cursor \<Rightarrow> cursor \<Rightarrow> bool" where
  "advances cur e \<longleftrightarrow> (\<exists>m. snd cur = m @ snd e \<and> fst e = rev m @ fst cur)"

lemma advances_refl: "advances cur cur"
  by (simp add: advances_def)

lemma advances_trans: "advances a b \<Longrightarrow> advances b c \<Longrightarrow> advances a c"
  unfolding advances_def
proof -
  assume "\<exists>m. snd a = m @ snd b \<and> fst b = rev m @ fst a"
    and "\<exists>m. snd b = m @ snd c \<and> fst c = rev m @ fst b"
  then obtain m n where "snd a = m @ snd b" "fst b = rev m @ fst a"
    "snd b = n @ snd c" "fst c = rev n @ fst b" by blast
  then have "snd a = (m @ n) @ snd c \<and> fst c = rev (m @ n) @ fst a" by simp
  then show "\<exists>m. snd a = m @ snd c \<and> fst c = rev m @ fst a" by blast
qed

lemma advances_length: "advances cur e \<Longrightarrow> length (snd e) \<le> length (snd cur)"
  by (auto simp: advances_def)

lemma advances_step: "advances (bef, c # cs) (c # bef, cs)"
  by (simp add: advances_def)

lemma iter_advances:
  assumes "\<And>cur e. e \<in> set (f cur) \<Longrightarrow> advances cur e"
  shows "e \<in> set (iter f n cur) \<Longrightarrow> advances cur e"
proof (induction n arbitrary: cur e)
  case 0
  then show ?case by (simp add: advances_refl)
next
  case (Suc n)
  from Suc.prems consider "e = cur"
    | c where "c \<in> set (f cur)" "e \<in> set (iter f n c)"
    by (auto split: if_splits)
  then show ?case
  proof cases
    case 1
    then show ?thesis by (simp add: advances_refl)
  next
    case 2
    from assms [OF 2(1)] Suc.IH [OF 2(2)] show ?thesis by (rule advances_trans)
  qed
qed

lemma rmatch_advances: "e \<in> set (rmatch r cur) \<Longrightarrow> advances cur e"
proof (induction r arbitrary: cur e)
  case (Cls items)
  then show ?case
    by (cases cur) (auto simp: advances_def split: list.splits if_splits)
next
  case (NCls items)
  then show ?case
    by (cases cur) (auto simp: advances_def split: list.splits if_splits)
next
  case (Seq r1 r2)
  from Seq.prems obtain c where c: "c \<in> set (rmatch r1 cur)" "e \<in> set (rmatch r2 c)" by auto
  from Seq.IH(1) [OF c(1)] Seq.IH(2) [OF c(2)] show ?case by (rule advances_trans)
next
  case (Alt r1 r2)
  from Alt.prems have "e \<in> set (rmatch r1 cur) \<or> e \<in> set (rmatch r2 cur)" by simp
  with Alt.IH show ?case by blast
next
  case (Star r)
  from Star.prems have "e \<in> set (iter (rmatch r) (length (snd cur)) cur)" by simp
  from iter_advances [of "rmatch r", OF Star.IH this] show ?case .
next
  case (Plus r)
  from Plus.prems obtain c where c: "c \<in> set (rmatch r cur)"
    "e \<in> set (iter (rmatch r) (length (snd c)) c)" by auto
  from iter_advances [of "rmatch r", OF Plus.IH c(2)] Plus.IH [OF c(1)]
  show ?case by (blast intro: advances_trans)
next
  case (Opt r)
  from Opt.prems have "e \<in> set (iter (rmatch r) 1 cur)" by simp
  from iter_advances [of "rmatch r", OF Opt.IH this] show ?case .
next
  case (Upto n r)
  from Upto.prems have "e \<in> set (iter (rmatch r) n cur)" by simp
  from iter_advances [of "rmatch r", OF Upto.IH this] show ?case .
next
  case WordB
  then have "e = cur" by (simp split: if_splits)
  then show ?case by (simp add: advances_refl)
next
  case EndA
  then have "e = cur" by (simp split: if_splits)
  then show ?case by (simp add: advances_refl)
qed

text \<open>\<open>min_len r\<close>: a number of code units that every match of \<open>r\<close> consumes.\<close>

primrec min_len :: "regex \<Rightarrow> nat" where
  "min_len (Cls items) = 1"
| "min_len (NCls items) = 1"
| "min_len (Seq r1 r2) = min_len r1 + min_len r2"
| "min_len (Alt r1 r2) = min (min_len r1) (min_len r2)"
| "min_len (Star r) = 0"
| "min_len (Plus r) = min_len r"
| "min_len (Opt r) = 0"
| "min_len (Upto n r) = 0"
| "min_len WordB = 0"
| "min_len EndA = 0"

lemma rmatch_min_len:
  "e \<in> set (rmatch r cur) \<Longrightarrow> length (snd e) + min_len r \<le> length (snd cur)"
proof (induction r arbitrary: cur e)
  case (Cls items)
  then show ?case by (cases cur) (auto split: list.splits if_splits)
next
  case (NCls items)
  then show ?case by (cases cur) (auto split: list.splits if_splits)
next
  case (Seq r1 r2)
  from Seq.prems obtain c where c: "c \<in> set (rmatch r1 cur)" "e \<in> set (rmatch r2 c)" by auto
  from Seq.IH(1) [OF c(1)] Seq.IH(2) [OF c(2)] show ?case by simp
next
  case (Alt r1 r2)
  from Alt.prems have "e \<in> set (rmatch r1 cur) \<or> e \<in> set (rmatch r2 cur)" by simp
  then show ?case
  proof
    assume "e \<in> set (rmatch r1 cur)"
    from Alt.IH(1) [OF this] show ?thesis by simp
  next
    assume "e \<in> set (rmatch r2 cur)"
    from Alt.IH(2) [OF this] show ?thesis by simp
  qed
next
  case (Plus r)
  from Plus.prems obtain c where c: "c \<in> set (rmatch r cur)"
    "e \<in> set (iter (rmatch r) (length (snd c)) c)" by auto
  from iter_advances [of "rmatch r", OF rmatch_advances c(2)]
  have "length (snd e) \<le> length (snd c)" by (rule advances_length)
  with Plus.IH [OF c(1)] show ?case by simp
next
  case (Star r)
  then show ?case using rmatch_advances [of e "Star r" cur] advances_length by simp
next
  case (Opt r)
  then show ?case using rmatch_advances [of e "Opt r" cur] advances_length by simp
next
  case (Upto n r)
  then show ?case using rmatch_advances [of e "Upto n r" cur] advances_length by simp
next
  case WordB
  then have "e = cur" by (simp split: if_splits)
  then show ?case by simp
next
  case EndA
  then have "e = cur" by (simp split: if_splits)
  then show ?case by simp
qed

lemma search_Some:
  "search re bef aft = Some (st, en) \<Longrightarrow>
     advances (bef, aft) st \<and> en \<in> set (rmatch re st)"
proof (induction aft arbitrary: bef)
  case Nil
  then show ?case by (auto simp: advances_refl split: list.splits)
next
  case (Cons c cs)
  show ?case
  proof (cases "rmatch re (bef, c # cs)")
    case Nil
    with Cons.prems have "search re (c # bef) cs = Some (st, en)" by simp
    from Cons.IH [OF this] advances_step [of bef c cs] show ?thesis
      by (blast intro: advances_trans)
  next
    case (Cons e es)
    with Cons.prems show ?thesis by (auto simp: advances_refl)
  qed
qed

lemma exec_Some:
  assumes "exec re cur = Some (st, en)"
  shows "advances cur st" and "en \<in> set (rmatch re st)"
    and "length (snd en) + min_len re \<le> length (snd st)"
    and "length (snd st) \<le> length (snd cur)"
proof -
  from assms have s: "search re (fst cur) (snd cur) = Some (st, en)" by (simp add: exec_def)
  from search_Some [OF s] show a: "advances cur st" and b: "en \<in> set (rmatch re st)" by simp_all
  from rmatch_min_len [OF b] show "length (snd en) + min_len re \<le> length (snd st)" .
  from advances_length [OF a] show "length (snd st) \<le> length (snd cur)" .
qed

lemma exec_loop_total:
  assumes "0 < min_len re"
  shows "\<exists>ms. exec_loop re cur = Some ms"
proof (induction "length (snd cur)" arbitrary: cur rule: less_induct)
  case less
  show ?case
  proof (cases "exec re cur")
    case None
    then show ?thesis by (subst exec_loop.simps) simp
  next
    case (Some m)
    obtain st en where m: "m = (st, en)" by (cases m)
    from exec_Some(3,4) [OF Some [unfolded m]] assms
    have "length (snd en) < length (snd cur)" by simp
    from less [OF this] obtain ms where "exec_loop re en = Some ms" by blast
    with Some m show ?thesis by (subst exec_loop.simps) simp
  qed
qed

subsection \<open>Replacing and splitting\<close>

text \<open>
  \<open>String.prototype.replace\<close> with a global pattern: every match, from left to right, is
  replaced by \<open>f\<close> of its text; after a match that consumes nothing the scan steps over
  one code unit.
\<close>

function replace_loop :: "regex \<Rightarrow> (jsstring \<Rightarrow> jsstring) \<Rightarrow> cursor \<Rightarrow> jsstring" where
  "replace_loop re f cur =
     (case exec re cur of
        None \<Rightarrow> snd cur
      | Some (st, en) \<Rightarrow>
          take (length (snd cur) - length (snd st)) (snd cur) @ f (matched (st, en)) @
            (if length (snd en) < length (snd st) then replace_loop re f en
             else (case snd en of
                     [] \<Rightarrow> []
                   | c # cs \<Rightarrow> c # replace_loop re f (c # fst en, cs))))"
  by pat_completeness auto
termination
proof (relation "measure (\<lambda>(re, f, cur). length (snd cur))")
  show "wf (measure (\<lambda>(re, f, cur). length (snd cur)))" by simp
next
  fix re :: regex and f :: "jsstring \<Rightarrow> jsstring" and cur x2 st en
  assume "exec re cur = Some x2" "(st, en) = x2" "length (snd en) < length (snd st)"
  then show "((re, f, en), re, f, cur) \<in> measure (\<lambda>(re, f, cur). length (snd cur))"
    using exec_Some(4) [of re cur st en] by simp
next
  fix re :: regex and f :: "jsstring \<Rightarrow> jsstring" and cur x2 st en c cs
  assume "exec re cur = Some x2" "(st, en) = x2" "snd en = c # cs"
  then show "((re, f, c # fst en, cs), re, f, cur) \<in> measure (\<lambda>(re, f, cur). length (snd cur))"
    using exec_Some(3,4) [of re cur st en] by simp
qed

definition replace_all :: "regex \<Rightarrow> (jsstring \<Rightarrow> jsstring) \<Rightarrow> jsstring \<Rightarrow> jsstring" where
  "replace_all re f s = replace_loop re f (start s)"

text \<open>\<open>replace\<close> with a pattern that is not global: the first match only.\<close>

definition replace_first :: "regex \<Rightarrow> jsstring \<Rightarrow> jsstring \<Rightarrow> jsstring" where
  "replace_first re new s =
     (case exec re (start s) of
        None \<Rightarrow> s
      | Some (st, en) \<Rightarrow> rev (fst st) @ new @ snd en)"

text \<open>
  \<open>String.prototype.split\<close> with a pattern. \<open>tok\<close> is the text since the last separator,
  last code unit first; the pattern is tried at the cursor only; a separator that ends
  where the current piece starts does not split.
\<close>

function split_loop :: "regex \<Rightarrow> jsstring \<Rightarrow> cursor \<Rightarrow> jsstring list" where
  "split_loop re tok cur =
     (case snd cur of
        [] \<Rightarrow> [rev tok]
      | c # cs \<Rightarrow>
          (case rmatch re cur of
             [] \<Rightarrow> split_loop re (c # tok) (c # fst cur, cs)
           | e # es \<Rightarrow>
               if length (snd e) = length (snd cur) \<and> tok = []
               then split_loop re (c # tok) (c # fst cur, cs)
               else rev tok # split_loop re [] e))"
  by pat_completeness auto
termination
proof (relation "measures [\<lambda>(re, tok, cur). length (snd cur), \<lambda>(re, tok, cur). length tok]")
  show "wf (measures [\<lambda>(re, tok, cur). length (snd cur), \<lambda>(re, tok, cur). length tok])"
    by simp
next
  fix re :: regex and tok :: jsstring and cur :: cursor and c cs
  assume "snd cur = c # cs"
  then show "((re, c # tok, c # fst cur, cs), re, tok, cur)
      \<in> measures [\<lambda>(re, tok, cur). length (snd cur), \<lambda>(re, tok, cur). length tok]"
    by simp
next
  fix re :: regex and tok :: jsstring and cur :: cursor and c cs e es
  assume "snd cur = c # cs"
  then show "((re, c # tok, c # fst cur, cs), re, tok, cur)
      \<in> measures [\<lambda>(re, tok, cur). length (snd cur), \<lambda>(re, tok, cur). length tok]"
    by simp
next
  fix re :: regex and tok :: jsstring and cur :: cursor and c cs e es
  assume "rmatch re cur = e # es" "\<not> (length (snd e) = length (snd cur) \<and> tok = [])"
  then show "((re, [], e), re, tok, cur)
      \<in> measures [\<lambda>(re, tok, cur). length (snd cur), \<lambda>(re, tok, cur). length tok]"
    using advances_length [OF rmatch_advances [of e re cur]] by auto
qed

definition split_re :: "regex \<Rightarrow> jsstring \<Rightarrow> jsstring list" where
  "split_re re s =
     (if s = [] then (if rmatch re (start []) = [] then [[]] else [])
      else split_loop re [] (start s))"

text \<open>\<open>split\<close> with a separator of one code unit.\<close>

fun split_char :: "jschar \<Rightarrow> jsstring \<Rightarrow> jsstring list" where
  "split_char sep [] = [[]]"
| "split_char sep (c # cs) =
     (if c = sep then [] # split_char sep cs
      else (case split_char sep cs of
              [] \<Rightarrow> [[c]]
            | t # ts \<Rightarrow> (c # t) # ts))"

section \<open>The keyword extractor\<close>

subsection \<open>Lower case\<close>

text \<open>
  \<open>String.prototype.toLowerCase\<close> belongs to the runtime, and its case table is not part of
  the repository. The functions of the extractor take it as the parameter \<open>lc\<close>, and what
  is proved of them for every \<open>lc\<close> holds for the runtime's. \<open>toLowerCase\<close> below is the
  runtime's function on the strings whose code units are at most U+00FF or U+0130, the
  letter whose lower case is the two code units U+0069 U+0307: there the lower case of a
  string is made of the lower cases of its code units. What the runtime does to any
  other string is the parameter \<open>other\<close>.
\<close>

definition lower_unit :: "jschar \<Rightarrow> jsstring" where
  "lower_unit c =
     (if 65 \<le> c \<and> c \<le> 90 then [c + 32]
      else if 192 \<le> c \<and> c \<le> 222 \<and> c \<noteq> 215 then [c + 32]
      else if c = 304 then [105, 775]
      else [c])"

definition in_table :: "jschar \<Rightarrow> bool" where
  "in_table c \<longleftrightarrow> c \<le> 255 \<or> c = 304"

definition toLowerCase :: "(jsstring \<Rightarrow> jsstring) \<Rightarrow> jsstring \<Rightarrow> jsstring" where
  "toLowerCase other s = (if list_all in_table s then concat (map lower_unit s) else other s)"

subsection \<open>Stop words\<close>

definition STOP_WORDS :: "jsstring list" where
  "STOP_WORDS = map U
     [''a'', ''an'', ''the'', ''is'', ''are'', ''was'', ''were'', ''be'', ''been'',
      ''being'', ''have'', ''has'', ''had'', ''do'', ''does'', ''did'', ''will'',
      ''would'', ''could'', ''should'', ''may'', ''might'', ''shall'', ''can'', ''need'',
      ''to'', ''of'', ''in'', ''for'', ''on'', ''with'', ''at'', ''by'', ''from'', ''as'',
      ''into'', ''about'', ''like'', ''through'', ''after'', ''before'', ''between'',
      ''out'', ''above'', ''below'', ''up'', ''down'', ''and'', ''but'', ''or'', ''not'',
      ''no'', ''nor'', ''so'', ''yet'', ''both'', ''if'', ''then'', ''else'', ''when'',
      ''while'', ''where'', ''how'', ''what'', ''which'', ''who'', ''whom'', ''why'',
      ''this'', ''that'', ''these'', ''those'', ''it'', ''its'', ''i'', ''me'', ''my'',
      ''we'', ''us'', ''our'', ''you'', ''your'', ''he'', ''him'', ''his'', ''she'',
      ''her'', ''they'', ''them'', ''their'', ''all'', ''each'', ''every'', ''any'',
      ''some'', ''such'', ''more'', ''most'', ''other'', ''than'', ''too'', ''very'',
      ''just'', ''also'', ''now'', ''here'', ''there'', ''only'', ''please'', ''help'',
      ''want'', ''make'', ''create'', ''add'', ''change'', ''update'', ''modify'', ''fix'',
      ''implement'', ''write'', ''code'', ''file'', ''function'', ''class'', ''method'',
      ''new'', ''use'', ''using'']"

subsection \<open>The patterns\<close>

text \<open>Code units: 34 and 39 are the two quotes, 45 the hyphen, 46 the dot, 47 the slash,
  95 the underscore; 48 to 57 are the digits, 65 to 90 and 97 to 122 the letters.\<close>

text \<open>\<^verbatim>\<open>/["']([^"']+)["']/g\<close>\<close>

definition quotedRegex :: regex where
  "quotedRegex = Seq (Cls [Ch 34, Ch 39]) (Seq (Plus (NCls [Ch 34, Ch 39])) (Cls [Ch 34, Ch 39]))"

text \<open>\<^verbatim>\<open>/(?:\.{0,2}\/)?(?:[\w.-]+\/)+[\w.-]+(?:\.\w+)?/g\<close>\<close>

definition pathRegex :: regex where
  "pathRegex =
     Seq (Opt (Seq (Upto 2 (Cls [Ch 46])) (Cls [Ch 47])))
      (Seq (Plus (Seq (Plus (Cls [WordC, Ch 46, Ch 45])) (Cls [Ch 47])))
        (Seq (Plus (Cls [WordC, Ch 46, Ch 45]))
          (Opt (Seq (Cls [Ch 46]) (Plus (Cls [WordC]))))))"

text \<open>\<^verbatim>\<open>/\.$/\<close>\<close>

definition trailingDot :: regex where
  "trailingDot = Seq (Cls [Ch 46]) EndA"

text \<open>\<^verbatim>\<open>/\b[a-z]+(?:[A-Z][a-z]+)+\b|\b[A-Z][a-z]+(?:[A-Z][a-z]+)+\b/g\<close>\<close>

definition camelRegex :: regex where
  "camelRegex =
     Alt (Seq WordB
            (Seq (Plus (Cls [Rng 97 122]))
              (Seq (Plus (Seq (Cls [Rng 65 90]) (Plus (Cls [Rng 97 122])))) WordB)))
         (Seq WordB
            (Seq (Cls [Rng 65 90])
              (Seq (Plus (Cls [Rng 97 122]))
                (Seq (Plus (Seq (Cls [Rng 65 90]) (Plus (Cls [Rng 97 122])))) WordB))))"

text \<open>\<^verbatim>\<open>/([a-z])([A-Z])/g\<close>\<close>

definition humpRegex :: regex where
  "humpRegex = Seq (Cls [Rng 97 122]) (Cls [Rng 65 90])"

text \<open>\<^verbatim>\<open>/\b\w+(?:_\w+)+\b/g\<close>\<close>

definition snakeRegex :: regex where
  "snakeRegex =
     Seq WordB
       (Seq (Plus (Cls [WordC]))
         (Seq (Plus (Seq (Cls [Ch 95]) (Plus (Cls [WordC])))) WordB))"

text \<open>\<^verbatim>\<open>/["'][^"']*["']/g\<close>\<close>

definition quotedSpanRegex :: regex where
  "quotedSpanRegex =
     Seq (Cls [Ch 34, Ch 39]) (Seq (Star (NCls [Ch 34, Ch 39])) (Cls [Ch 34, Ch 39]))"

text \<open>\<^verbatim>\<open>/[^a-zA-Z0-9_\s-]/g\<close>\<close>

definition punctuationRegex :: regex where
  "punctuationRegex = NCls [Rng 97 122, Rng 65 90, Rng 48 57, Ch 95, SpaceC, Ch 45]"

text \<open>\<^verbatim>\<open>/\s+/\<close>\<close>

definition spacesRegex :: regex where
  "spacesRegex = Plus (Cls [SpaceC])"

subsection \<open>The stages\<close>

text \<open>The result. Its field \<open>keywords\<close> is \<open>keywords'\<close> here, the plain name being reserved.\<close>

record ExtractedKeywords =
  keywords' :: "jsstring list"
  quotedStrings :: "jsstring list"
  filePaths :: "jsstring list"
  identifiers :: "jsstring list"
  generalTerms :: "jsstring list"

text \<open>
  \<open>extractQuotedStrings\<close>. The group of the pattern is all of the match but its first and
  its last code unit, which the two quote classes consume: that is \<open>match[1]\<close>.
\<close>

definition group1 :: "jsstring \<Rightarrow> jsstring" where
  "group1 m = butlast (tl m)"

definition extractQuotedStrings :: "jsstring \<Rightarrow> jsstring list option" where
  "extractQuotedStrings query =
     Option.bind (exec_loop quotedRegex (start query))
       (\<lambda>ms. Some (concat (map (\<lambda>m. let content = trim (group1 (matched m))
                                     in if length content > 0 then [content] else []) ms)))"

definition extractFilePaths :: "jsstring \<Rightarrow> jsstring list option" where
  "extractFilePaths query =
     Option.bind (exec_loop pathRegex (start query))
       (\<lambda>ms. Some (concat (map (\<lambda>m. let filePath = replace_first trailingDot [] (matched m)
                                     in if length filePath > 0 then [filePath] else []) ms)))"

text \<open>
  \<open>extractIdentifiers\<close>. \<open>word_parts\<close> is what the body of either loop pushes for one match:
  the word, then the parts of length above 2 that are no stop words. The replacement
  \<open>$1 $2\<close> puts a space between the two code units of a match of the hump pattern.
\<close>

definition word_parts :: "(jsstring \<Rightarrow> jsstring) \<Rightarrow> jsstring \<Rightarrow> jsstring list \<Rightarrow> jsstring list" where
  "word_parts lc word parts =
     word # filter (\<lambda>part. length part > 2 \<and> lc part \<notin> set STOP_WORDS) parts"

definition camel_parts :: "jsstring \<Rightarrow> jsstring list" where
  "camel_parts word =
     split_char 32 (replace_all humpRegex (\<lambda>m. take 1 m @ [32] @ drop 1 m) word)"

definition extractIdentifiers :: "(jsstring \<Rightarrow> jsstring) \<Rightarrow> jsstring \<Rightarrow> jsstring list option" where
  "extractIdentifiers lc query =
     Option.bind (exec_loop camelRegex (start query))
       (\<lambda>cs. Option.bind (exec_loop snakeRegex (start query))
          (\<lambda>ss. Some
             (concat (map (\<lambda>m. word_parts lc (matched m) (camel_parts (matched m))) cs) @
              concat (map (\<lambda>m. word_parts lc (matched m) (split_char 95 (matched m))) ss))))"

definition extractGeneralTerms :: "(jsstring \<Rightarrow> jsstring) \<Rightarrow> jsstring \<Rightarrow> jsstring list" where
  "extractGeneralTerms lc query =
     (let cleaned =
            filter (\<lambda>word. lc word \<notin> set STOP_WORDS)
              (filter (\<lambda>word. length word > 2)
                (split_re spacesRegex
                  (replace_all punctuationRegex (\<lambda>m. [32])
                    (replace_all pathRegex (\<lambda>m. [])
                      (replace_all quotedSpanRegex (\<lambda>m. []) query)))))
      in Set_new cleaned)"

text \<open>\<open>addUnique\<close> works on the set \<open>seen\<close> and the array \<open>keywords\<close> of \<open>extractKeywords\<close>.\<close>

definition addUnique ::
  "(jsstring \<Rightarrow> jsstring) \<Rightarrow> jsstring list \<Rightarrow> jsstring list \<times> jsstring list
    \<Rightarrow> jsstring list \<times> jsstring list" where
  "addUnique lc terms state =
     foldl (\<lambda>(seen, keywords) term.
              let lower = lc term
              in if lower \<notin> set seen \<and> length lower > 1
                 then (Set_add seen lower, keywords @ [term])
                 else (seen, keywords))
       state terms"

definition extractKeywords :: "(jsstring \<Rightarrow> jsstring) \<Rightarrow> jsstring \<Rightarrow> ExtractedKeywords option" where
  "extractKeywords lc query =
     Option.bind (extractQuotedStrings query)
       (\<lambda>quotedStrings. Option.bind (extractFilePaths query)
          (\<lambda>filePaths. Option.bind (extractIdentifiers lc query)
             (\<lambda>identifiers.
                let generalTerms = extractGeneralTerms lc query;
                    state = addUnique lc generalTerms
                              (addUnique lc identifiers
                                (addUnique lc filePaths
                                  (addUnique lc quotedStrings ([], []))))
                in Some \<lparr>keywords' = snd state, quotedStrings = quotedStrings,
                          filePaths = filePaths, identifiers = identifiers,
                          generalTerms = generalTerms\<rparr>)))"

subsection \<open>Example queries\<close>

text \<open>\<^verbatim>\<open>Fix the "login button" color in src/components/AuthForm.tsx\<close>\<close>

definition priority_query :: jsstring where
  "priority_query =
     U ''Fix the '' @ [34] @ U ''login button'' @ [34] @
     U '' color in src/components/AuthForm.tsx''"

text \<open>\<^verbatim>\<open>"ab" "ab" x/y x/y fooBar fooBar\<close>\<close>

definition repeat_query :: jsstring where
  "repeat_query =
     [34] @ U ''ab'' @ [34] @ U '' '' @ [34] @ U ''ab'' @ [34] @ U '' x/y x/y fooBar fooBar''"

text \<open>The query of three code units: a double quote, U+0130, a double quote.\<close>

definition dotted_I_query :: jsstring where
  "dotted_I_query = [34, 304, 34]"

subsection \<open>Evaluation of the matcher\<close>

lemma iter_numeral:
  "iter f (numeral k) cur =
     concat (map (\<lambda>c. if length (snd c) < length (snd cur) then iter f (pred_numeral k) c else [])
                 (f cur)) @ [cur]"
  by (simp add: numeral_eq_Suc)

lemmas regex_eval = iter_numeral start_def U_def in_class_def exec_def exec_loop.simps
  matched_def is_word_def is_space_def word_before_def word_after_def

text \<open>
  The bound on the rounds of \<open>*\<close> and \<open>+\<close> cuts nothing off: every round consumes a code
  unit, so any larger bound gives the same matches.
\<close>

lemma iter_enough:
  "length (snd cur) \<le> n \<Longrightarrow> iter f n cur = iter f (length (snd cur)) cur"
proof (induction n arbitrary: cur rule: less_induct)
  case (less n)
  show ?case
  proof (cases n)
    case 0
    with less.prems show ?thesis by simp
  next
    case n: (Suc n')
    show ?thesis
    proof (cases "length (snd cur)")
      case 0
      have "concat (map (\<lambda>c. []) (f cur)) = ([] :: cursor list)" by simp
      with 0 n show ?thesis by simp
    next
      case l: (Suc l)
      have "\<And>c. length (snd c) < Suc l \<Longrightarrow> iter f n' c = iter f l c"
      proof -
        fix c :: cursor
        assume c: "length (snd c) < Suc l"
        from l n less.prems have "l \<le> n'" by simp
        with c n have "iter f n' c = iter f (length (snd c)) c"
          by (intro less.IH) simp_all
        moreover from c n \<open>l \<le> n'\<close> have "iter f l c = iter f (length (snd c)) c"
          by (intro less.IH) simp_all
        ultimately show "iter f n' c = iter f l c" by simp
      qed
      then have "(\<lambda>c. if length (snd c) < Suc l then iter f n' c else []) =
                 (\<lambda>c. if length (snd c) < Suc l then iter f l c else [])"
        by auto
      with l n show ?thesis by simp
    qed
  qed
qed

lemma rmatch_Star_any_bound:
  "length (snd cur) \<le> n \<Longrightarrow> rmatch (Star r) cur = iter (rmatch r) n cur"
  using iter_enough [of cur n "rmatch r"] by simp

subsection \<open>The loops of the extractor end\<close>

lemma min_len_patterns:
  "0 < min_len quotedRegex" "0 < min_len pathRegex"
  "0 < min_len camelRegex" "0 < min_len snakeRegex"
  by (simp_all add: quotedRegex_def pathRegex_def camelRegex_def snakeRegex_def)

lemma extractQuotedStrings_total: "\<exists>qs. extractQuotedStrings query = Some qs"
  using exec_loop_total [OF min_len_patterns(1), of "start query"]
  by (auto simp: extractQuotedStrings_def)

lemma extractFilePaths_total: "\<exists>ps. extractFilePaths query = Some ps"
  using exec_loop_total [OF min_len_patterns(2), of "start query"]
  by (auto simp: extractFilePaths_def)

lemma extractIdentifiers_total: "\<exists>ids. extractIdentifiers lc query = Some ids"
  using exec_loop_total [OF min_len_patterns(3), of "start query"]
    exec_loop_total [OF min_len_patterns(4), of "start query"]
  by (auto simp: extractIdentifiers_def)

lemma extractKeywords_Some:
  "\<exists>qs ps ids.
     extractQuotedStrings query = Some qs \<and> extractFilePaths query = Some ps \<and>
     extractIdentifiers lc query = Some ids \<and>
     extractKeywords lc query =
       Some \<lparr>keywords' =
               snd (addUnique lc (extractGeneralTerms lc query)
                     (addUnique lc ids (addUnique lc ps (addUnique lc qs ([], []))))),
             quotedStrings = qs, filePaths = ps, identifiers = ids,
             generalTerms = extractGeneralTerms lc query\<rparr>"
proof -
  from extractQuotedStrings_total obtain qs where 1: "extractQuotedStrings query = Some qs" by blast
  from extractFilePaths_total obtain ps where 2: "extractFilePaths query = Some ps" by blast
  from extractIdentifiers_total obtain ids where 3: "extractIdentifiers lc query = Some ids"
    by blast
  from 1 2 3 show ?thesis by (simp add: extractKeywords_def Let_def)
qed

subsection \<open>The merge\<close>

text \<open>
  The merge in the words of the specification: the terms are taken in order, and a term
  is appended when its lower-case form has not been seen and is longer than one code
  unit. \<open>seen\<close> holds the lower-case forms met so far.
\<close>

fun merge_terms :: "(jsstring \<Rightarrow> jsstring) \<Rightarrow> jsstring list \<Rightarrow> jsstring list \<Rightarrow> jsstring list" where
  "merge_terms lc seen [] = []"
| "merge_terms lc seen (t # ts) =
     (if lc t \<notin> set seen \<and> length (lc t) > 1
      then t # merge_terms lc (seen @ [lc t]) ts
      else merge_terms lc seen ts)"

lemma merge_terms_append:
  "merge_terms lc seen (xs @ ys) =
     merge_terms lc seen xs @ merge_terms lc (seen @ map lc (merge_terms lc seen xs)) ys"
  by (induction xs arbitrary: seen) auto

lemma addUnique_merge:
  "addUnique lc ts (seen, ks) =
     (seen @ map lc (merge_terms lc seen ts), ks @ merge_terms lc seen ts)"
proof (induction ts arbitrary: seen ks)
  case Nil
  then show ?case by (simp add: addUnique_def)
next
  case (Cons t ts)
  have step: "addUnique lc (t # ts) (seen, ks) =
      addUnique lc ts
        (if lc t \<notin> set seen \<and> length (lc t) > 1
         then (Set_add seen (lc t), ks @ [t]) else (seen, ks))"
    by (simp add: addUnique_def Let_def)
  show ?case
    unfolding step by (simp add: Cons.IH Set_add_def)
qed

lemma merge_terms_distinct:
  "distinct seen \<Longrightarrow> distinct (seen @ map lc (merge_terms lc seen ts))"
proof (induction ts arbitrary: seen)
  case Nil
  then show ?case by simp
next
  case (Cons t ts)
  show ?case
  proof (cases "lc t \<notin> set seen \<and> length (lc t) > 1")
    case True
    with Cons.prems have "distinct (seen @ [lc t])" by simp
    from Cons.IH [OF this] True show ?thesis by simp
  next
    case False
    with Cons.IH [OF Cons.prems] show ?thesis by auto
  qed
qed

lemma merge_terms_long: "k \<in> set (merge_terms lc seen ts) \<Longrightarrow> 1 < length (lc k) \<and> k \<in> set ts"
  by (induction ts arbitrary: seen) (auto split: if_splits)

lemma keywords_merge:
  assumes "extractKeywords lc query = Some r"
  shows "keywords' r =
      merge_terms lc [] (quotedStrings r @ filePaths r @ identifiers r @ generalTerms r)"
    and "distinct (map lc (keywords' r))"
    and "k \<in> set (keywords' r) \<Longrightarrow> 1 < length (lc k)"
proof -
  from extractKeywords_Some [of query lc] assms obtain qs ps ids where
    r: "r = \<lparr>keywords' =
               snd (addUnique lc (extractGeneralTerms lc query)
                     (addUnique lc ids (addUnique lc ps (addUnique lc qs ([], []))))),
             quotedStrings = qs, filePaths = ps, identifiers = ids,
             generalTerms = extractGeneralTerms lc query\<rparr>"
    by auto
  show m: "keywords' r =
      merge_terms lc [] (quotedStrings r @ filePaths r @ identifiers r @ generalTerms r)"
    unfolding r by (simp add: addUnique_merge merge_terms_append)
  from merge_terms_distinct [of "[]" lc] show "distinct (map lc (keywords' r))"
    unfolding m by simp
  show "k \<in> set (keywords' r) \<Longrightarrow> 1 < length (lc k)"
    unfolding m using merge_terms_long by blast
qed

subsection \<open>The stages on the example queries\<close>

text \<open>
  The terms of the example queries are strings on which \<open>toLowerCase\<close> is the runtime's
  function, so what is evaluated on them holds whatever \<open>other\<close> is.
\<close>

lemma priority_query_stages:
  "extractQuotedStrings priority_query = Some [U ''login button'']"
  "extractFilePaths priority_query = Some [U ''src/components/AuthForm.tsx'']"
  "extractIdentifiers (toLowerCase other) priority_query = Some [U ''AuthForm'', U ''Auth'', U ''Form'']"
  "extractGeneralTerms (toLowerCase other) priority_query = [U ''color'']"
proof -
  show "extractQuotedStrings priority_query = Some [U ''login button'']"
    by (simp add: extractQuotedStrings_def priority_query_def quotedRegex_def regex_eval
        group1_def trim_def)
  show "extractFilePaths priority_query = Some [U ''src/components/AuthForm.tsx'']"
    by (simp add: extractFilePaths_def priority_query_def pathRegex_def trailingDot_def
        replace_first_def regex_eval)
  show "extractIdentifiers (toLowerCase other) priority_query
      = Some [U ''AuthForm'', U ''Auth'', U ''Form'']"
    by (simp add: extractIdentifiers_def priority_query_def camelRegex_def snakeRegex_def
        humpRegex_def regex_eval word_parts_def camel_parts_def replace_all_def
        toLowerCase_def in_table_def lower_unit_def STOP_WORDS_def)
  show "extractGeneralTerms (toLowerCase other) priority_query = [U ''color'']"
    by (simp add: extractGeneralTerms_def priority_query_def quotedSpanRegex_def pathRegex_def
        punctuationRegex_def spacesRegex_def regex_eval replace_all_def split_re_def
        toLowerCase_def in_table_def lower_unit_def STOP_WORDS_def Set_new_def Set_add_def)
qed

lemma repeat_query_stages:
  "extractQuotedStrings repeat_query = Some [U ''ab'', U ''ab'']"
  "extractFilePaths repeat_query = Some [U ''x/y'', U ''x/y'']"
  "extractIdentifiers (toLowerCase other) repeat_query
     = Some [U ''fooBar'', U ''foo'', U ''Bar'', U ''fooBar'', U ''foo'', U ''Bar'']"
proof -
  show "extractQuotedStrings repeat_query = Some [U ''ab'', U ''ab'']"
    by (simp add: extractQuotedStrings_def repeat_query_def quotedRegex_def regex_eval
        group1_def trim_def)
  show "extractFilePaths repeat_query = Some [U ''x/y'', U ''x/y'']"
    by (simp add: extractFilePaths_def repeat_query_def pathRegex_def trailingDot_def
        replace_first_def regex_eval)
  show "extractIdentifiers (toLowerCase other) repeat_query
     = Some [U ''fooBar'', U ''foo'', U ''Bar'', U ''fooBar'', U ''foo'', U ''Bar'']"
    by (simp add: extractIdentifiers_def repeat_query_def camelRegex_def snakeRegex_def
        humpRegex_def regex_eval word_parts_def camel_parts_def replace_all_def
        toLowerCase_def in_table_def lower_unit_def STOP_WORDS_def)
qed

lemma dotted_I_query_stages:
  "extractQuotedStrings dotted_I_query = Some [[304]]"
  "extractFilePaths dotted_I_query = Some []"
  "extractIdentifiers lc dotted_I_query = Some []"
  "extractGeneralTerms lc dotted_I_query = []"
proof -
  show "extractQuotedStrings dotted_I_query = Some [[304]]"
    by (simp add: extractQuotedStrings_def dotted_I_query_def quotedRegex_def regex_eval
        group1_def trim_def)
  show "extractFilePaths dotted_I_query = Some []"
    by (simp add: extractFilePaths_def dotted_I_query_def pathRegex_def regex_eval)
  show "extractIdentifiers lc dotted_I_query = Some []"
    by (simp add: extractIdentifiers_def dotted_I_query_def camelRegex_def snakeRegex_def
        regex_eval)
  show "extractGeneralTerms lc dotted_I_query = []"
    by (simp add: extractGeneralTerms_def dotted_I_query_def quotedSpanRegex_def pathRegex_def
        punctuationRegex_def spacesRegex_def regex_eval replace_all_def split_re_def
        Set_new_def)
qed

lemma identifiers_keep_word_and_parts:
  assumes "exec_loop camelRegex (start query) = Some cs"
    and "exec_loop snakeRegex (start query) = Some ss"
  shows "extractIdentifiers lc query =
      Some (concat (map (\<lambda>m. word_parts lc (matched m) (camel_parts (matched m))) cs) @
            concat (map (\<lambda>m. word_parts lc (matched m) (split_char 95 (matched m))) ss))"
    and "set (word_parts lc word parts) =
      insert word {part \<in> set parts. length part > 2 \<and> lc part \<notin> set STOP_WORDS}"
  using assms by (auto simp: extractIdentifiers_def word_parts_def)

subsection \<open>The claims on the extractor\<close>

text \<open>
  Claim C6 (merge) says that \<open>keywords\<close> has no entry of length 1 or less. The merge tests
  the length of the lower-case form of a term, not the length of the term. For the query
  \<^verbatim>\<open>"\<close>U+0130\<^verbatim>\<open>"\<close> the quoted string is the one code unit U+0130, its lower-case form has
  two code units, and the term is appended: \<open>keywords\<close> has an entry of length 1.
\<close>

theorem keywords_entry_of_one_code_unit:
  "extractKeywords (toLowerCase other) dotted_I_query =
     Some \<lparr>keywords' = [[304]], quotedStrings = [[304]], filePaths = [], identifiers = [],
           generalTerms = []\<rparr>
   \<and> length [304 :: jschar] = 1 \<and> length (toLowerCase other [304]) = 2"
  by (simp add: extractKeywords_def dotted_I_query_stages addUnique_def Set_add_def Let_def
      toLowerCase_def in_table_def lower_unit_def)

text \<open>
  Claim C7 (totality). For every query, and every lower-casing function, \<open>extractKeywords\<close>
  returns a result: each of its four loops ends, since every match of its pattern
  consumes at least one code unit. The result is a function of the query alone: the
  extractor reads no state, and each call creates its patterns anew.
\<close>

theorem extractKeywords_total: "\<exists>r. extractKeywords lc query = Some r"
proof -
  from exec_loop_total [OF min_len_patterns(1)]
  obtain qs where "extractQuotedStrings query = Some qs"
    using extractQuotedStrings_total by blast
  moreover from exec_loop_total [OF min_len_patterns(2)]
  obtain ps where "extractFilePaths query = Some ps"
    using extractFilePaths_total by blast
  moreover from exec_loop_total [OF min_len_patterns(3)] exec_loop_total [OF min_len_patterns(4)]
  obtain ids where "extractIdentifiers lc query = Some ids"
    using extractIdentifiers_total by blast
  ultimately show ?thesis
    by (simp add: extractKeywords_def Let_def)
qed

text \<open>
  Claim C8 (identifiers) says that the identifier stage recognizes kebab-case tokens, as
  the comment on \<open>extractIdentifiers\<close> does. The stage has a pattern for camel case and one
  for snake case and none for kebab case: for \<^verbatim>\<open>primary-button\<close> it returns no identifier.
\<close>

theorem kebab_case_not_recognized: "extractIdentifiers lc (U ''primary-button'') = Some []"
  by (simp add: extractIdentifiers_def camelRegex_def snakeRegex_def regex_eval)

text \<open>
  Claim C9 (keyword priority). For the query
  \<^verbatim>\<open>Fix the "login button" color in src/components/AuthForm.tsx\<close> the quoted strings are the
  one string \<^verbatim>\<open>login button\<close>, the file paths contain \<^verbatim>\<open>src/components/AuthForm.tsx\<close>, and
  the first keyword is \<^verbatim>\<open>login button\<close>.
\<close>

theorem keyword_priority_example:
  "\<exists>r. extractKeywords (toLowerCase other) priority_query = Some r
     \<and> quotedStrings r = [U ''login button'']
     \<and> U ''src/components/AuthForm.tsx'' \<in> set (filePaths r)
     \<and> keywords' r \<noteq> [] \<and> keywords' r ! 0 = U ''login button''
     \<and> keywords' r =
         [U ''login button'', U ''src/components/AuthForm.tsx'', U ''AuthForm'', U ''Auth'',
          U ''Form'', U ''color'']"
  by (simp add: extractKeywords_def priority_query_stages addUnique_def Set_add_def Let_def
      toLowerCase_def in_table_def lower_unit_def U_def)

text \<open>
  Claim C10 (general terms). For every query the general terms hold no string twice. The
  other three lists can: the query \<^verbatim>\<open>"ab" "ab" x/y x/y fooBar fooBar\<close> repeats a quoted
  string, a file path and an identifier.
\<close>

theorem generalTerms_distinct:
  "(\<exists>r. extractKeywords lc query = Some r \<and> distinct (generalTerms r))
   \<and> (\<exists>r. extractKeywords (toLowerCase other) repeat_query = Some r
        \<and> \<not> distinct (quotedStrings r) \<and> \<not> distinct (filePaths r)
        \<and> \<not> distinct (identifiers r))"
proof
  from extractKeywords_Some [of query lc] obtain r where
    "extractKeywords lc query = Some r" "generalTerms r = extractGeneralTerms lc query"
    by auto
  moreover have "distinct (extractGeneralTerms lc query)"
    by (simp add: extractGeneralTerms_def Let_def distinct_Set_new)
  ultimately show "\<exists>r. extractKeywords lc query = Some r \<and> distinct (generalTerms r)" by auto
next
  show "\<exists>r. extractKeywords (toLowerCase other) repeat_query = Some r
        \<and> \<not> distinct (quotedStrings r) \<and> \<not> distinct (filePaths r)
        \<and> \<not> distinct (identifiers r)"
    by (simp add: extractKeywords_def repeat_query_stages Let_def)
qed

end
